theory Spec2Isabelle
  imports Complex_Main "HOL-Library.Log_Nat"
begin

section \<open>Strings and the URI component codec\<close>

text \<open>
  A JavaScript string is modelled by its UTF-8 byte sequence (a \<open>string\<close>, one \<open>char\<close>
  per byte). ASCII text is then literally the same text, \<open>encodeURIComponent\<close> works byte by
  byte, and \<open>decodeURIComponent\<close> has to check that the bytes it unescapes form well-formed
  UTF-8, as the platform does (it raises \<open>URIError\<close> otherwise; here: \<open>None\<close>).
\<close>

definition truthy :: "string option \<Rightarrow> bool" where
  "truthy v = (case v of None \<Rightarrow> False | Some x \<Rightarrow> x \<noteq> [])"

definition starts_with :: "string \<Rightarrow> string \<Rightarrow> bool" where
  "starts_with p c = (take (length p) c = p)"

fun split_on :: "char \<Rightarrow> string \<Rightarrow> string list" where
  "split_on d [] = [[]]"
| "split_on d (c # cs) =
     (if c = d then [] # split_on d cs
      else (case split_on d cs of [] \<Rightarrow> [[c]] | x # xs \<Rightarrow> (c # x) # xs))"

fun join_with :: "string \<Rightarrow> string list \<Rightarrow> string" where
  "join_with sep [] = []"
| "join_with sep [x] = x"
| "join_with sep (x # y # ys) = x @ sep @ join_with sep (y # ys)"

definition unreserved :: "char \<Rightarrow> bool" where
  "unreserved c =
     (let n = (of_char c :: nat) in
      (97 \<le> n \<and> n \<le> 122) \<or> (65 \<le> n \<and> n \<le> 90) \<or> (48 \<le> n \<and> n \<le> 57) \<or>
      c \<in> set ''-_.!~*()'' \<or> c = CHR 0x27)"

definition hexdigit :: "nat \<Rightarrow> char" where
  "hexdigit n = (if n < 10 then char_of (48 + n) else char_of (55 + n))"

definition hexval :: "char \<Rightarrow> nat option" where
  "hexval c =
     (let n = (of_char c :: nat) in
      if 48 \<le> n \<and> n \<le> 57 then Some (n - 48)
      else if 65 \<le> n \<and> n \<le> 70 then Some (n - 55)
      else if 97 \<le> n \<and> n \<le> 102 then Some (n - 87)
      else None)"

definition escape_byte :: "char \<Rightarrow> string" where
  "escape_byte c = [CHR ''%'', hexdigit (of_char c div 16), hexdigit (of_char c mod 16)]"

text \<open>Decoding, first pass: every \<open>%XX\<close> becomes a byte (\<open>Inr\<close>), every other character stays
  (\<open>Inl\<close>); a \<open>%\<close> not followed by two hex digits is an error.\<close>

fun unescape :: "string \<Rightarrow> (char + nat) list option" where
  "unescape [] = Some []"
| "unescape (c # cs) =
     (if c \<noteq> CHR ''%'' then map_option ((#) (Inl c)) (unescape cs)
      else (case cs of
              h1 # h2 # rest \<Rightarrow>
                (case (hexval h1, hexval h2) of
                   (Some a, Some b) \<Rightarrow> map_option ((#) (Inr (16 * a + b))) (unescape rest)
                 | _ \<Rightarrow> None)
            | _ \<Rightarrow> None))"

text \<open>The well-formed UTF-8 byte sequences of one code point (Unicode, table 3-7).\<close>

definition cont :: "nat \<Rightarrow> bool" where
  "cont b = (128 \<le> b \<and> b \<le> 191)"

definition utf8_seq2 :: "nat \<Rightarrow> nat \<Rightarrow> bool" where
  "utf8_seq2 b0 b1 = (194 \<le> b0 \<and> b0 \<le> 223 \<and> cont b1)"

definition utf8_seq3 :: "nat \<Rightarrow> nat \<Rightarrow> nat \<Rightarrow> bool" where
  "utf8_seq3 b0 b1 b2 =
     (224 \<le> b0 \<and> b0 \<le> 239 \<and> cont b1 \<and> cont b2 \<and>
      (b0 = 224 \<longrightarrow> 160 \<le> b1) \<and> (b0 = 237 \<longrightarrow> b1 \<le> 159))"

definition utf8_seq4 :: "nat \<Rightarrow> nat \<Rightarrow> nat \<Rightarrow> nat \<Rightarrow> bool" where
  "utf8_seq4 b0 b1 b2 b3 =
     (240 \<le> b0 \<and> b0 \<le> 244 \<and> cont b1 \<and> cont b2 \<and> cont b3 \<and>
      (b0 = 240 \<longrightarrow> 144 \<le> b1) \<and> (b0 = 244 \<longrightarrow> b1 \<le> 143))"

text \<open>Decoding, second pass: an escaped byte below 128 is that character; an escaped lead
  byte must be followed by its escaped continuation bytes, and the whole must be well-formed.\<close>

fun assemble :: "(char + nat) list \<Rightarrow> string option" where
  "assemble [] = Some []"
| "assemble (Inl c # r) = map_option ((#) c) (assemble r)"
| "assemble (Inr b # r) =
     (if b < 128 then map_option ((#) (char_of b)) (assemble r)
      else if b < 192 then None
      else if b < 224 then
        (case r of
           Inr b1 # r' \<Rightarrow>
             if utf8_seq2 b b1 then map_option ((@) (map char_of [b, b1])) (assemble r') else None
         | _ \<Rightarrow> None)
      else if b < 240 then
        (case r of
           Inr b1 # Inr b2 # r' \<Rightarrow>
             if utf8_seq3 b b1 b2
             then map_option ((@) (map char_of [b, b1, b2])) (assemble r') else None
         | _ \<Rightarrow> None)
      else if b < 248 then
        (case r of
           Inr b1 # Inr b2 # Inr b3 # r' \<Rightarrow>
             if utf8_seq4 b b1 b2 b3
             then map_option ((@) (map char_of [b, b1, b2, b3])) (assemble r') else None
         | _ \<Rightarrow> None)
      else None)"

definition decodeURIComponent :: "string \<Rightarrow> string option" where
  "decodeURIComponent s = (case unescape s of None \<Rightarrow> None | Some ts \<Rightarrow> assemble ts)"

text \<open>The strings that stand for a JavaScript string without lone surrogates: well-formed
  UTF-8.\<close>

fun utf8 :: "nat list \<Rightarrow> bool" where
  "utf8 [] = True"
| "utf8 (b # r) =
     (if b < 128 then utf8 r
      else if b < 192 then False
      else if b < 224 then (case r of b1 # r' \<Rightarrow> utf8_seq2 b b1 \<and> utf8 r' | _ \<Rightarrow> False)
      else if b < 240 then
        (case r of b1 # b2 # r' \<Rightarrow> utf8_seq3 b b1 b2 \<and> utf8 r' | _ \<Rightarrow> False)
      else if b < 248 then
        (case r of b1 # b2 # b3 # r' \<Rightarrow> utf8_seq4 b b1 b2 b3 \<and> utf8 r' | _ \<Rightarrow> False)
      else False)"

definition wellFormed :: "string \<Rightarrow> bool" where
  "wellFormed v = utf8 (map of_char v)"

text \<open>\<open>encodeURIComponent\<close> raises \<open>URIError\<close> (here: \<open>None\<close>) on a string with a lone
  surrogate, that is, on one that is not well-formed; otherwise it keeps the unreserved
  characters and escapes every other byte.\<close>

definition escape_all :: "string \<Rightarrow> string" where
  "escape_all v = concat (map (\<lambda>c. if unreserved c then [c] else escape_byte c) v)"

definition encodeURIComponent :: "string \<Rightarrow> string option" where
  "encodeURIComponent v = (if wellFormed v then Some (escape_all v) else None)"

section \<open>Platform functions used by \<open>decodeToken\<close>\<close>

subsection \<open>\<open>atob\<close>\<close>

text \<open>The forgiving base64 decoder of the WHATWG specification: ASCII white space is dropped, up to two
  trailing \<open>=\<close> are removed when the length is a multiple of four, a length of one modulo four
  or a character outside the alphabet raises (here: \<open>None\<close>). The result is a list of character
  codes below 256.\<close>

definition b64val :: "char \<Rightarrow> nat option" where
  "b64val c =
     (let n = (of_char c :: nat) in
      if 65 \<le> n \<and> n \<le> 90 then Some (n - 65)
      else if 97 \<le> n \<and> n \<le> 122 then Some (n - 71)
      else if 48 \<le> n \<and> n \<le> 57 then Some (n + 4)
      else if c = CHR ''+'' then Some 62
      else if c = CHR ''/'' then Some 63
      else None)"

fun b64_bytes :: "nat list \<Rightarrow> nat list" where
  "b64_bytes (a # b # c # d # r) =
     [a * 4 + b div 16, (b mod 16) * 16 + c div 4, (c mod 4) * 64 + d] @ b64_bytes r"
| "b64_bytes [a, b, c] = [a * 4 + b div 16, (b mod 16) * 16 + c div 4]"
| "b64_bytes [a, b] = [a * 4 + b div 16]"
| "b64_bytes _ = []"

definition ascii_ws :: "char \<Rightarrow> bool" where
  "ascii_ws c = ((of_char c :: nat) \<in> {9, 10, 12, 13, 32})"

definition strip_padding :: "string \<Rightarrow> string" where
  "strip_padding d =
     (if length d mod 4 = 0 \<and> d \<noteq> [] \<and> last d = CHR ''=''
      then (if butlast d \<noteq> [] \<and> last (butlast d) = CHR ''='' then butlast (butlast d)
            else butlast d)
      else d)"

definition atob :: "string \<Rightarrow> nat list option" where
  "atob input =
     (let d = strip_padding (filter (\<lambda>c. \<not> ascii_ws c) input) in
      if length d mod 4 = 1 \<or> (\<exists>c \<in> set d. b64val c = None) then None
      else Some (b64_bytes (map (\<lambda>c. the (b64val c)) d)))"

subsection \<open>\<open>JSON.parse\<close>\<close>

text \<open>The platform's numbers are IEEE 754 doubles. A finite one is given by its exact rational
  value; the two zeros are not told apart (nothing here divides or prints a zero).\<close>

datatype jsnum = Fin rat | NaN | PosInf | NegInf

text \<open>For \<open>q > 0\<close>, the \<open>e\<close> with \<open>2\<^sup>e \<le> q < 2\<^sup>e\<^sup>+\<^sup>1\<close>.\<close>

definition binary_exponent :: "rat \<Rightarrow> int" where
  "binary_exponent q =
     (let (a, b) = quotient_of q; e0 = bitlen a - bitlen b
      in if 2 powi e0 \<le> q then e0 else e0 - 1)"

definition round_half_even :: "rat \<Rightarrow> int" where
  "round_half_even y =
     (let f = \<lfloor>y\<rfloor>; r = y - of_int f
      in if r < 1 / 2 then f else if 1 / 2 < r then f + 1 else if even f then f else f + 1)"

text \<open>Rounding to the nearest double, ties to even: 53 significant bits \<open>m\<close> at the exponent
  \<open>e\<close>, which is not below \<open>-1022\<close> (below it the numbers are subnormal); the result is infinite
  when it reaches \<open>2\<^sup>1\<^sup>0\<^sup>2\<^sup>4\<close>, that is, when \<open>e\<close> does or when \<open>m\<close> is rounded up to \<open>2\<^sup>5\<^sup>3\<close> at
  \<open>e = 1023\<close>.\<close>

definition round_positive :: "rat \<Rightarrow> jsnum" where
  "round_positive q =
     (let e = max (binary_exponent q) (- 1022);
          ulp = 2 powi (e - 52);
          m = round_half_even (q / ulp)
      in if 1024 \<le> e \<or> (e = 1023 \<and> m = 2 ^ 53) then PosInf else Fin (of_int m * ulp))"

definition negate :: "jsnum \<Rightarrow> jsnum" where
  "negate x = (case x of Fin r \<Rightarrow> Fin (- r) | NaN \<Rightarrow> NaN | PosInf \<Rightarrow> NegInf | NegInf \<Rightarrow> PosInf)"

definition round_double :: "rat \<Rightarrow> jsnum" where
  "round_double q =
     (if q = 0 then Fin 0 else if 0 < q then round_positive q else negate (round_positive (- q)))"

text \<open>\<^verbatim>\<open>x * y\<close> and \<^verbatim>\<open>x <= y\<close> on doubles, the first for a finite right factor that is greater
  than zero: the exact product, rounded; no comparison with \<open>NaN\<close> holds.\<close>

definition js_times :: "jsnum \<Rightarrow> rat \<Rightarrow> jsnum" where
  "js_times x k = (case x of Fin r \<Rightarrow> round_double (r * k) | _ \<Rightarrow> x)"

definition js_le :: "jsnum \<Rightarrow> jsnum \<Rightarrow> bool" where
  "js_le x y =
     (case x of
        NaN \<Rightarrow> False
      | NegInf \<Rightarrow> y \<noteq> NaN
      | PosInf \<Rightarrow> y = PosInf
      | Fin a \<Rightarrow> (case y of Fin b \<Rightarrow> a \<le> b | PosInf \<Rightarrow> True | _ \<Rightarrow> False))"

text \<open>JSON values. A number is the double nearest to the number written; the members of an
  object are kept in source order, and a lookup takes the last one of a repeated key, as the
  platform does.\<close>

datatype json = JNull | JBool bool | JNum jsnum | JStr string | JArr "json list"
  | JObj "(string \<times> json) list"

definition json_ws :: "char \<Rightarrow> bool" where
  "json_ws c = ((of_char c :: nat) \<in> {9, 10, 13, 32})"

definition skip_ws :: "string \<Rightarrow> string" where
  "skip_ws s = dropWhile json_ws s"

definition is_digit :: "char \<Rightarrow> bool" where
  "is_digit c = (48 \<le> (of_char c :: nat) \<and> (of_char c :: nat) \<le> 57)"

definition digits_val :: "string \<Rightarrow> int" where
  "digits_val ds = foldl (\<lambda>acc c. 10 * acc + (of_char c - 48)) 0 ds"

definition parse_number :: "string \<Rightarrow> (jsnum \<times> string) option" where
  "parse_number s =
     (let neg = (s \<noteq> [] \<and> hd s = CHR ''-'');
          s1 = (if neg then tl s else s);
          ip = takeWhile is_digit s1;
          s2 = dropWhile is_digit s1;
          has_frac = (s2 \<noteq> [] \<and> hd s2 = CHR ''.'');
          fp = (if has_frac then takeWhile is_digit (tl s2) else []);
          s3 = (if has_frac then dropWhile is_digit (tl s2) else s2);
          has_exp = (s3 \<noteq> [] \<and> (hd s3 = CHR ''e'' \<or> hd s3 = CHR ''E''));
          s4 = (if has_exp then tl s3 else s3);
          eneg = (has_exp \<and> s4 \<noteq> [] \<and> hd s4 = CHR ''-'');
          s5 = (if has_exp \<and> s4 \<noteq> [] \<and> (hd s4 = CHR ''-'' \<or> hd s4 = CHR ''+'') then tl s4 else s4);
          ep = (if has_exp then takeWhile is_digit s5 else []);
          s6 = (if has_exp then dropWhile is_digit s5 else s3);
          mant = (of_int (digits_val ip) + of_int (digits_val fp) / 10 ^ length fp :: rat);
          scaled = (if eneg then mant / 10 ^ nat (digits_val ep)
                    else mant * 10 ^ nat (digits_val ep))
      in if ip = [] \<or> (length ip > 1 \<and> hd ip = CHR ''0'') \<or> (has_frac \<and> fp = []) \<or>
            (has_exp \<and> ep = [])
         then None
         else Some (round_double (if neg then - scaled else scaled), s6))"

definition utf8_unit :: "nat \<Rightarrow> string" where
  "utf8_unit n =
     (if n < 128 then [char_of n]
      else if n < 2048 then [char_of (192 + n div 64), char_of (128 + n mod 64)]
      else [char_of (224 + n div 4096), char_of (128 + n div 64 mod 64), char_of (128 + n mod 64)])"

definition simple_escape :: "char \<Rightarrow> char option" where
  "simple_escape c =
     (if c = CHR 0x22 \<or> c = CHR 0x5C \<or> c = CHR ''/'' then Some c
      else if c = CHR ''b'' then Some (CHR 0x08)
      else if c = CHR ''f'' then Some (CHR 0x0C)
      else if c = CHR ''n'' then Some (CHR 0x0A)
      else if c = CHR ''r'' then Some (CHR 0x0D)
      else if c = CHR ''t'' then Some (CHR 0x09)
      else None)"

text \<open>The characters of a string literal after the opening quote, up to the closing one.\<close>

fun parse_chars :: "string \<Rightarrow> (string \<times> string) option" where
  "parse_chars [] = None"
| "parse_chars (c # r) =
     (if c = CHR 0x22 then Some ([], r)
      else if (of_char c :: nat) < 32 then None
      else if c \<noteq> CHR 0x5C then map_option (apfst ((#) c)) (parse_chars r)
      else (case r of
              [] \<Rightarrow> None
            | e # r1 \<Rightarrow>
                if e = CHR ''u'' then
                  (case r1 of
                     h1 # h2 # h3 # h4 # r2 \<Rightarrow>
                       (case (hexval h1, hexval h2, hexval h3, hexval h4) of
                          (Some a, Some b, Some c', Some d) \<Rightarrow>
                            map_option (apfst ((@) (utf8_unit (4096 * a + 256 * b + 16 * c' + d))))
                              (parse_chars r2)
                        | _ \<Rightarrow> None)
                   | _ \<Rightarrow> None)
                else (case simple_escape e of
                        None \<Rightarrow> None
                      | Some x \<Rightarrow> map_option (apfst ((#) x)) (parse_chars r1))))"

text \<open>The value parser. The first argument bounds the depth of the recursion; \<open>JSON_parse\<close>
  starts it with more than twice the length of the text, which no text exhausts.\<close>

fun parse_value :: "nat \<Rightarrow> string \<Rightarrow> (json \<times> string) option"
  and parse_elements :: "nat \<Rightarrow> string \<Rightarrow> (json list \<times> string) option"
  and parse_members :: "nat \<Rightarrow> string \<Rightarrow> ((string \<times> json) list \<times> string) option"
where
  "parse_value 0 s = None"
| "parse_value (Suc k) s =
     (case skip_ws s of
        [] \<Rightarrow> None
      | c # r \<Rightarrow>
          if c = CHR 0x22 then map_option (apfst JStr) (parse_chars r)
          else if c = CHR ''['' then
            (if skip_ws r \<noteq> [] \<and> hd (skip_ws r) = CHR '']'' then Some (JArr [], tl (skip_ws r))
             else map_option (apfst JArr) (parse_elements k r))
          else if c = CHR ''{'' then
            (if skip_ws r \<noteq> [] \<and> hd (skip_ws r) = CHR ''}'' then Some (JObj [], tl (skip_ws r))
             else map_option (apfst JObj) (parse_members k r))
          else if starts_with ''null'' (c # r) then Some (JNull, drop 4 (c # r))
          else if starts_with ''true'' (c # r) then Some (JBool True, drop 4 (c # r))
          else if starts_with ''false'' (c # r) then Some (JBool False, drop 5 (c # r))
          else map_option (apfst JNum) (parse_number (c # r)))"
| "parse_elements 0 s = None"
| "parse_elements (Suc k) s =
     (case parse_value k s of
        None \<Rightarrow> None
      | Some (v, r) \<Rightarrow>
          (case skip_ws r of
             [] \<Rightarrow> None
           | c # r' \<Rightarrow>
               if c = CHR '','' then map_option (apfst ((#) v)) (parse_elements k r')
               else if c = CHR '']'' then Some ([v], r')
               else None))"
| "parse_members 0 s = None"
| "parse_members (Suc k) s =
     (case skip_ws s of
        [] \<Rightarrow> None
      | q # r \<Rightarrow>
          if q \<noteq> CHR 0x22 then None
          else
            (case parse_chars r of
               None \<Rightarrow> None
             | Some (key, r1) \<Rightarrow>
                 (case skip_ws r1 of
                    [] \<Rightarrow> None
                  | c # r2 \<Rightarrow>
                      if c \<noteq> CHR '':'' then None
                      else
                        (case parse_value k r2 of
                           None \<Rightarrow> None
                         | Some (v, r3) \<Rightarrow>
                             (case skip_ws r3 of
                                [] \<Rightarrow> None
                              | c' # r4 \<Rightarrow>
                                  if c' = CHR '','' then
                                    map_option (apfst ((#) (key, v))) (parse_members k r4)
                                  else if c' = CHR ''}'' then Some ([(key, v)], r4)
                                  else None)))))"

definition JSON_parse :: "string \<Rightarrow> json option" where
  "JSON_parse s =
     (case parse_value (2 * length s + 2) s of
        None \<Rightarrow> None
      | Some (v, r) \<Rightarrow> if skip_ws r = [] then Some v else None)"

text \<open>Truthiness of a parsed value, and the read of its \<open>exp\<close> property (\<open>None\<close>:
  \<open>undefined\<close>; only an object can have the property).\<close>

definition truthyJ :: "json \<Rightarrow> bool" where
  "truthyJ j =
     (case j of JNull \<Rightarrow> False | JBool b \<Rightarrow> b | JNum x \<Rightarrow> x \<noteq> Fin 0 \<and> x \<noteq> NaN
      | JStr x \<Rightarrow> x \<noteq> []
      | JArr _ \<Rightarrow> True | JObj _ \<Rightarrow> True)"

definition get_exp :: "json \<Rightarrow> json option" where
  "get_exp j = (case j of JObj kvs \<Rightarrow> map_of (rev kvs) ''exp'' | _ \<Rightarrow> None)"

section \<open>The two backing stores\<close>

text \<open>
  The environment of the three modules. \<open>isBrowser\<close> is the module constant
  \<^verbatim>\<open>typeof window !== 'undefined'\<close>. The cookie store is the network-visible backend:
  \<open>jar\<close> holds the name and the raw (still encoded) value of every cookie, in the order the
  browser lists them; \<open>mode\<close> says how \<^verbatim>\<open>document.cookie\<close> behaves: it works, it is
  switched off (reads give the empty string, writes are dropped), or every access raises.
  \<open>ls\<close> is \<^verbatim>\<open>localStorage\<close>, the local-only backend. \<open>clock\<close> is \<^verbatim>\<open>Date.now()\<close> in
  milliseconds, and \<open>intl\<close> what \<^verbatim>\<open>Intl.DateTimeFormat().resolvedOptions().timeZone\<close> gives.
  Two conversions of the platform are left open: \<open>coerce\<close> is its conversion to a number of
  a value that is not a number, and \<open>render\<close> its \<^verbatim>\<open>toString()\<close>.
\<close>

datatype cookie_mode = CookiesOn | CookiesOff | CookiesBlocked

datatype intl_result = IntlThrows | IntlZone "string option"

record browser =
  isBrowser :: bool
  mode :: cookie_mode
  jar :: "(string \<times> string) list"
  ls :: "string \<rightharpoonup> string"
  clock :: int
  intl :: intl_result
  coerce :: "json \<Rightarrow> jsnum"
  render :: "json \<Rightarrow> string"

definition wsp :: "char \<Rightarrow> bool" where
  "wsp c = (c = CHR '' '' \<or> c = CHR 0x09)"

definition trim :: "string \<Rightarrow> string" where
  "trim s = rev (dropWhile wsp (rev (dropWhile wsp s)))"

definition jar_put :: "string \<Rightarrow> string \<Rightarrow> (string \<times> string) list \<Rightarrow> (string \<times> string) list" where
  "jar_put n v j =
     (if n \<in> fst ` set j then map (\<lambda>(n', v'). if n' = n then (n', v) else (n', v')) j
      else j @ [(n, v)])"

definition jar_del :: "string \<Rightarrow> (string \<times> string) list \<Rightarrow> (string \<times> string) list" where
  "jar_del n j = filter (\<lambda>(n', v'). n' \<noteq> n) j"

text \<open>
  Assignment to \<^verbatim>\<open>document.cookie\<close>. The first argument is the text before the attributes,
  the second the instant of the \<^verbatim>\<open>expires\<close> attribute. The browser keeps what precedes the
  first semicolon, splits it at the first equals sign and trims both parts; a cookie whose
  expiry is not in the future is removed. \<open>None\<close>: the access raised.
\<close>

definition docCookieSet :: "string \<Rightarrow> int \<Rightarrow> browser \<Rightarrow> browser option" where
  "docCookieSet text expires s =
     (case mode s of
        CookiesBlocked \<Rightarrow> None
      | CookiesOff \<Rightarrow> Some s
      | CookiesOn \<Rightarrow>
          (let pair = takeWhile (\<lambda>c. c \<noteq> CHR '';'') text;
               n = trim (takeWhile (\<lambda>c. c \<noteq> CHR ''='') pair);
               v = trim (drop 1 (dropWhile (\<lambda>c. c \<noteq> CHR ''='') pair))
           in if CHR ''='' \<notin> set pair \<or> n = [] then Some s
              else if expires \<le> clock s then Some (s\<lparr>jar := jar_del n (jar s)\<rparr>)
              else Some (s\<lparr>jar := jar_put n v (jar s)\<rparr>)))"

text \<open>Reading \<^verbatim>\<open>document.cookie\<close>: the cookies as \<open>name=value\<close>, joined by \<open>; \<close>.\<close>

definition cookie_text :: "string \<times> string \<Rightarrow> string" where
  "cookie_text e = fst e @ ''='' @ snd e"

definition docCookieGet :: "browser \<Rightarrow> string option" where
  "docCookieGet s =
     (case mode s of
        CookiesBlocked \<Rightarrow> None
      | CookiesOff \<Rightarrow> Some []
      | CookiesOn \<Rightarrow> Some (join_with ''; '' (map cookie_text (jar s))))"

definition setItem :: "string \<Rightarrow> string \<Rightarrow> browser \<Rightarrow> browser" where
  "setItem k v s = s\<lparr>ls := (ls s)(k \<mapsto> v)\<rparr>"

definition removeItem :: "string \<Rightarrow> browser \<Rightarrow> browser" where
  "removeItem k s = s\<lparr>ls := (ls s)(k := None)\<rparr>"

section \<open>cookies.ts\<close>

text \<open>The key of the local-only mirror of a cookie: \<^verbatim>\<open>`cookie_${name}`\<close>.\<close>

definition mirrorKey :: "string \<Rightarrow> string" where
  "mirrorKey name = ''cookie_'' @ name"

definition setCookie :: "string \<Rightarrow> string \<Rightarrow> int \<Rightarrow> browser \<Rightarrow> browser" where
  "setCookie name v days s =
     (if \<not> isBrowser s then s
      else
        (let caught = setItem (mirrorKey name) v s in
         case encodeURIComponent v of
           None \<Rightarrow> caught
         | Some enc \<Rightarrow>
             (case docCookieSet (name @ ''='' @ enc) (clock s + days * 24 * 60 * 60 * 1000) s of
                None \<Rightarrow> caught
              | Some s' \<Rightarrow> setItem (mirrorKey name) v s')))"

datatype scan = Hit string | Miss | Malformed

text \<open>The \<^verbatim>\<open>for\<close> loop of \<open>getCookie\<close> over the pieces of \<^verbatim>\<open>document.cookie.split(';')\<close>.\<close>

fun scanCookies :: "string \<Rightarrow> string list \<Rightarrow> scan" where
  "scanCookies nameEQ [] = Miss"
| "scanCookies nameEQ (c # ca) =
     (let c' = dropWhile (\<lambda>x. x = CHR '' '') c in
      if starts_with nameEQ c'
      then (case decodeURIComponent (drop (length nameEQ) c') of
              Some v \<Rightarrow> Hit v
            | None \<Rightarrow> Malformed)
      else scanCookies nameEQ ca)"

text \<open>\<^verbatim>\<open>a || b\<close> on two values that are a string or \<open>null\<close>.\<close>

definition or_else :: "string option \<Rightarrow> string option \<Rightarrow> string option" where
  "or_else a b = (if truthy a then a else b)"

definition getCookie :: "string \<Rightarrow> browser \<Rightarrow> string option \<times> browser" where
  "getCookie name s =
     (if \<not> isBrowser s then (None, s)
      else
        (let caught = (or_else (ls s (mirrorKey name)) (ls s name), s) in
         case docCookieGet s of
           None \<Rightarrow> caught
         | Some text \<Rightarrow>
             (case scanCookies (name @ ''='') (split_on CHR '';'' text) of
                Malformed \<Rightarrow> caught
              | Hit v \<Rightarrow> (Some v, setItem (mirrorKey name) v s)
              | Miss \<Rightarrow>
                  (let stored = ls s (mirrorKey name) in
                   if truthy stored then (stored, setCookie name (the stored) 30 s)
                   else (ls s name, s)))))"

definition removeCookie :: "string \<Rightarrow> browser \<Rightarrow> browser" where
  "removeCookie name s =
     (if \<not> isBrowser s then s
      else (case docCookieSet (name @ ''='') 0 s of
              Some s' \<Rightarrow> removeItem name (removeItem (mirrorKey name) s')
            | None \<Rightarrow> removeItem name (removeItem (mirrorKey name) s)))"

section \<open>preferences.ts\<close>

definition detectLocalTimezone :: "browser \<Rightarrow> string" where
  "detectLocalTimezone s =
     (if \<not> isBrowser s then ''UTC''
      else (case intl s of
              IntlThrows \<Rightarrow> ''UTC''
            | IntlZone tz \<Rightarrow> if truthy tz then the tz else ''UTC''))"

definition getPreference :: "string \<Rightarrow> string \<Rightarrow> browser \<Rightarrow> string \<times> browser" where
  "getPreference key defaultValue s =
     (if \<not> isBrowser s then (defaultValue, s)
      else
        (let (v, s1) = getCookie key s;
             (v', s2) = (if \<not> truthy v
                         then (let w = ls s1 key in
                               (w, if truthy w then setCookie key (the w) 365 s1 else s1))
                         else (v, s1))
         in (if truthy v' then the v' else defaultValue, s2)))"

definition setPreference :: "string \<Rightarrow> string \<Rightarrow> browser \<Rightarrow> browser" where
  "setPreference key v s =
     (if \<not> isBrowser s then s else setItem key v (setCookie key v 365 s))"

definition removePreference :: "string \<Rightarrow> browser \<Rightarrow> browser" where
  "removePreference key s =
     (if \<not> isBrowser s then s else removeItem key (removeCookie key s))"

definition getTimezone :: "browser \<Rightarrow> string \<times> browser" where
  "getTimezone s =
     (let (stored, s') = getPreference ''history_timezone'' [] s
      in if stored = [] then (detectLocalTimezone s', s') else (stored, s'))"

definition setTimezone :: "string \<Rightarrow> browser \<Rightarrow> browser" where
  "setTimezone timezone s = setPreference ''history_timezone'' timezone s"



definition clearAll :: "browser \<Rightarrow> browser" where
  "clearAll s = removePreference ''network_unit'' (removePreference ''history_timezone'' s)"

section \<open>auth.ts\<close>

definition hexlow :: "nat \<Rightarrow> char" where
  "hexlow n = (if n < 10 then char_of (48 + n) else char_of (87 + n))"

text \<open>\<^verbatim>\<open>'%' + ('00' + c.charCodeAt(0).toString(16)).slice(-2)\<close> for a character code below 256.\<close>

definition toString16 :: "nat \<Rightarrow> string" where
  "toString16 n = (if n < 16 then [hexlow n] else [hexlow (n div 16), hexlow (n mod 16)])"

definition percent :: "nat \<Rightarrow> string" where
  "percent b = (let x = ''00'' @ toString16 b in CHR ''%'' # drop (length x - 2) x)"

definition replace_char :: "char \<Rightarrow> char \<Rightarrow> string \<Rightarrow> string" where
  "replace_char a b x = map (\<lambda>c. if c = a then b else c) x"

definition decodeToken :: "string \<Rightarrow> json option" where
  "decodeToken token =
     (case split_on CHR ''.'' token of
        _ # base64Url # _ \<Rightarrow>
          if base64Url = [] then None
          else
            (case atob (replace_char CHR ''_'' CHR ''/'' (replace_char CHR ''-'' CHR ''+'' base64Url)) of
               None \<Rightarrow> None
             | Some bytes \<Rightarrow>
                 (case decodeURIComponent (concat (map percent bytes)) of
                    None \<Rightarrow> None
                  | Some jsonPayload \<Rightarrow> JSON_parse jsonPayload))
      | _ \<Rightarrow> None)"

definition toNumber :: "browser \<Rightarrow> json \<Rightarrow> jsnum" where
  "toNumber s e = (case e of JNum x \<Rightarrow> x | _ \<Rightarrow> coerce s e)"

definition isTokenExpired :: "browser \<Rightarrow> string \<Rightarrow> bool" where
  "isTokenExpired s token =
     (case decodeToken token of
        None \<Rightarrow> True
      | Some decoded \<Rightarrow>
          if \<not> truthyJ decoded then True
          else (case get_exp decoded of
                  None \<Rightarrow> True
                | Some e \<Rightarrow>
                    if \<not> truthyJ e then True
                    else js_le (js_times (toNumber s e) 1000)
                           (round_double (of_int (clock s) + 60000))))"

definition removeToken :: "browser \<Rightarrow> browser" where
  "removeToken s =
     (if \<not> isBrowser s then s
      else removeItem ''auth_token_expiry'' (removeItem ''auth_token'' (removeCookie ''auth_token'' s)))"

definition setToken :: "string \<Rightarrow> browser \<Rightarrow> browser" where
  "setToken token s =
     (if \<not> isBrowser s then s
      else
        (let s1 = setCookie ''auth_token'' token 30 s;
             s2 = setItem ''auth_token'' token s1
         in case decodeToken token of
              None \<Rightarrow> s2
            | Some decoded \<Rightarrow>
                (case get_exp decoded of
                   None \<Rightarrow> s2
                 | Some e \<Rightarrow>
                     if truthyJ e then setItem ''auth_token_expiry'' (render s e) s2 else s2)))"

definition getToken :: "browser \<Rightarrow> string option \<times> browser" where
  "getToken s =
     (if \<not> isBrowser s then (None, s)
      else
        (let (t, s1) = getCookie ''auth_token'' s;
             (token, s2) = (if \<not> truthy t
                            then (let w = ls s1 ''auth_token'' in
                                  (w, if truthy w then setCookie ''auth_token'' (the w) 30 s1 else s1))
                            else (t, s1))
         in if truthy token \<and> isTokenExpired s2 (the token) then (None, removeToken s2)
            else (token, s2)))"

definition isAuthenticated :: "browser \<Rightarrow> bool \<times> browser" where
  "isAuthenticated s =
     (if \<not> isBrowser s then (False, s)
      else
        (let (token, s1) = getToken s in
         if \<not> truthy token then (False, s1)
         else if isTokenExpired s1 (the token) then (False, removeToken s1)
         else (True, s1)))"

section \<open>Well-formed stores\<close>

text \<open>What the browser guarantees of every cookie it holds (it cuts the text it is given at the
  first semicolon, splits at the first equals sign and trims the name), and the keys this layer
  uses: non-empty, without separator or blank.\<close>

definition cookie_ok :: "string \<times> string \<Rightarrow> bool" where
  "cookie_ok e =
     (fst e \<noteq> [] \<and> hd (fst e) \<noteq> CHR '' '' \<and> CHR '';'' \<notin> set (fst e) \<and>
      CHR ''='' \<notin> set (fst e) \<and> CHR '';'' \<notin> set (snd e))"

definition wf_jar :: "(string \<times> string) list \<Rightarrow> bool" where
  "wf_jar j = (\<forall>e \<in> set j. cookie_ok e)"

definition plainKey :: "string \<Rightarrow> bool" where
  "plainKey name =
     (name \<noteq> [] \<and> (\<forall>c \<in> set name. c \<noteq> CHR '';'' \<and> c \<noteq> CHR ''='' \<and> \<not> wsp c))"

definition tok :: "char \<Rightarrow> char + nat" where
  "tok c = (if unreserved c then Inl c else Inr (of_char c))"

definition probe :: "string \<Rightarrow> (string \<times> string) list \<Rightarrow> scan" where
  "probe name j =
     (case map_of j name of
        None \<Rightarrow> Miss
      | Some raw \<Rightarrow> (case decodeURIComponent raw of Some v \<Rightarrow> Hit v | None \<Rightarrow> Malformed))"

text \<open>Two states with the same environment: they differ in the contents of the stores only.\<close>

definition same_env :: "browser \<Rightarrow> browser \<Rightarrow> bool" where
  "same_env s s' =
     (isBrowser s' = isBrowser s \<and> mode s' = mode s \<and> clock s' = clock s \<and> intl s' = intl s \<and>
      coerce s' = coerce s \<and> render s' = render s)"

section \<open>What the stores hold\<close>

text \<open>\<open>holds key v s\<close>: in a browser, both backends and the unprefixed local key hold \<open>v\<close> under
  \<open>key\<close> (the cookie store as far as it can be read). \<open>unstored key s\<close>: no backend holds
  anything under \<open>key\<close>.\<close>

definition holds :: "string \<Rightarrow> string \<Rightarrow> browser \<Rightarrow> bool" where
  "holds key v s =
     (isBrowser s \<and> wf_jar (jar s) \<and> ls s key = Some v \<and> ls s (mirrorKey key) = Some v \<and>
      (mode s = CookiesOn \<longrightarrow> probe key (jar s) = Hit v))"

definition unstored :: "string \<Rightarrow> browser \<Rightarrow> bool" where
  "unstored key s =
     (ls s key = None \<and> ls s (mirrorKey key) = None \<and>
      (mode s = CookiesOn \<longrightarrow> map_of (jar s) key = None))"

section \<open>Sample states\<close>

definition loggedIn :: browser where
  "loggedIn =
     \<lparr>isBrowser = True, mode = CookiesOn,
      jar = [(''theme'', ''dark''), (''auth_token'', ''aGVhZA.eyJleHAiOjE4OTM0NTYwMDB9.c2ln'')],
      ls = [''auth_token'' \<mapsto> ''aGVhZA.eyJleHAiOjE4OTM0NTYwMDB9.c2ln'',
            ''cookie_auth_token'' \<mapsto> ''aGVhZA.eyJleHAiOjE4OTM0NTYwMDB9.c2ln'',
            ''auth_token_expiry'' \<mapsto> ''1893456000''],
      clock = 1700000000000, intl = IntlZone (Some ''Europe/Berlin''),
      coerce = (\<lambda>j. NaN), render = (\<lambda>j. ''1893456000'')\<rparr>"

text \<open>An independent read of the network-visible backend: the scan of \<open>getCookie\<close> over the
  text of \<^verbatim>\<open>document.cookie\<close>, without any write (\<open>None\<close>: the access raised).\<close>

definition cookieRead :: "string \<Rightarrow> browser \<Rightarrow> scan option" where
  "cookieRead name s =
     map_option (\<lambda>text. scanCookies (name @ ''='') (split_on CHR '';'' text)) (docCookieGet s)"

definition base :: browser where
  "base =
     \<lparr>isBrowser = True, mode = CookiesOn, jar = [], ls = Map.empty,
      clock = 1700000000000, intl = IntlZone (Some ''Europe/Berlin''),
      coerce = (\<lambda>j. NaN), render = (\<lambda>j. [])\<rparr>"

definition cookieOnly :: browser where
  "cookieOnly = base\<lparr>jar := [(''theme'', ''dark''), (''network_unit'', ''Mbps'')]\<rparr>"

definition mirrorOnly :: browser where
  "mirrorOnly = base\<lparr>ls := [''cookie_network_unit'' \<mapsto> ''Mbps'']\<rparr>"

definition emptyMirror :: browser where
  "emptyMirror = base\<lparr>ls := [''cookie_network_unit'' \<mapsto> '''']\<rparr>"

definition legacyOnly :: browser where
  "legacyOnly = base\<lparr>ls := [''network_unit'' \<mapsto> ''Mbps'']\<rparr>"

definition cookiesOffMirror :: browser where
  "cookiesOffMirror = mirrorOnly\<lparr>mode := CookiesOff\<rparr>"

definition blockedMirror :: browser where
  "blockedMirror = mirrorOnly\<lparr>mode := CookiesBlocked\<rparr>"

text \<open>Sample tokens. The payloads are \<^verbatim>\<open>{"exp":1893456000}\<close>, \<^verbatim>\<open>{"exp":1700000060}\<close> (exactly
  sixty seconds after the clock of the sample states), \<^verbatim>\<open>{"exp":1700000061}\<close> and
  \<^verbatim>\<open>{"sub":"u"}\<close>.\<close>

definition sampleToken :: string where
  "sampleToken = ''aGVhZA.eyJleHAiOjE4OTM0NTYwMDB9.c2ln''"

definition boundaryToken :: string where
  "boundaryToken = ''aGVhZA.eyJleHAiOjE3MDAwMDAwNjB9.c2ln''"

definition freshToken :: string where
  "freshToken = ''aGVhZA.eyJleHAiOjE3MDAwMDAwNjF9.c2ln''"

definition twoSegments :: string where
  "twoSegments = ''aGVhZA.eyJleHAiOjE4OTM0NTYwMDB9''"

definition claimsWithoutExp :: string where
  "claimsWithoutExp = ''aGVhZA.eyJzdWIiOiJ1In0.c2ln''"


text \<open>The state that differs from \<open>s\<close> at most in the cached expiry entry, which is \<open>x\<close>
  (\<open>None\<close>: absent).\<close>

definition cacheSet :: "string option \<Rightarrow> browser \<Rightarrow> browser" where
  "cacheSet x s = s\<lparr>ls := (ls s)(''auth_token_expiry'' := x)\<rparr>"

section \<open>Time values, the token found, further samples\<close>

text \<open>The clock readings considered: milliseconds since the epoch, not before it and at most
  \<open>8.64\<cdot>10\<^sup>1\<^sup>5\<close>, the largest time value of the platform. For them
  \<^verbatim>\<open>now + 60000\<close> is exact.\<close>

definition timeValue :: "int \<Rightarrow> bool" where
  "timeValue c = (0 \<le> c \<and> c \<le> 8640000000000000)"

text \<open>A whole number of seconds whose thousandfold is exact in double arithmetic.\<close>

definition wholeSeconds :: "rat \<Rightarrow> bool" where
  "wholeSeconds r = (r = of_int \<lfloor>r\<rfloor> \<and> \<bar>r\<bar> \<le> 9007199254740)"

text \<open>The token that the lookup of \<open>getToken\<close> finds in the stores: the cookie, where the
  cookie text can be read and holds one; else the mirror; else the unprefixed local key, which
  is also asked when what was found is empty.\<close>

definition tokenFound :: "browser \<Rightarrow> string option" where
  "tokenFound s =
     (let m = ls s (mirrorKey ''auth_token'');
          u = ls s ''auth_token'';
          c = (case cookieRead ''auth_token'' s of
                 Some (Hit v) \<Rightarrow> Some v
               | Some Miss \<Rightarrow> if truthy m then m else u
               | _ \<Rightarrow> or_else m u)
      in if truthy c then c else u)"

text \<open>Further sample tokens and states. \<open>fractionToken\<close> carries
  \<^verbatim>\<open>{"exp":1700000060.0740001}\<close> and \<open>nearBoundary\<close> has the clock at \<open>1700000000074\<close>:
  the expiry lies beyond the buffer, and its thousandfold rounds to \<open>now + 60000\<close>.
  \<open>writtenAtBoundary\<close> carries \<^verbatim>\<open>{"exp":2150000060.004}\<close> and \<open>laterClock\<close> has the clock at
  \<open>2150000000004\<close>: the number written is exactly \<open>now + 60 s\<close>, the double nearest to it is
  larger. \<open>loneSurrogate\<close> stands for a token whose first segment holds a lone surrogate: a
  string that is not well-formed; its payload is that of \<open>sampleToken\<close>.\<close>

definition fractionToken :: string where
  "fractionToken = ''aGVhZA.eyJleHAiOjE3MDAwMDAwNjAuMDc0MDAwMX0.c2ln''"

definition nearBoundary :: browser where
  "nearBoundary = base\<lparr>clock := 1700000000074\<rparr>"

definition writtenAtBoundary :: string where
  "writtenAtBoundary = ''aGVhZA.eyJleHAiOjIxNTAwMDAwNjAuMDA0fQ.c2ln''"

definition laterClock :: browser where
  "laterClock = base\<lparr>clock := 2150000000004\<rparr>"

definition loneSurrogate :: string where
  "loneSurrogate = CHR 0xFF # ''.eyJleHAiOjE4OTM0NTYwMDB9.c2ln''"

definition cookieHoldsBoundary :: browser where
  "cookieHoldsBoundary = base\<lparr>jar := [(''auth_token'', boundaryToken)]\<rparr>"

definition localHoldsBoundary :: browser where
  "localHoldsBoundary = base\<lparr>ls := [''auth_token'' \<mapsto> boundaryToken]\<rparr>"

definition localHoldsFresh :: browser where
  "localHoldsFresh = base\<lparr>ls := [''auth_token'' \<mapsto> freshToken]\<rparr>"


definition illFormedMirror :: browser where
  "illFormedMirror = base\<lparr>ls := [''cookie_network_unit'' \<mapsto> [CHR 0xFF]]\<rparr>"

text \<open>Two more strings that are not well-formed: one with the payload of \<open>boundaryToken\<close>, one
  whose second segment is not base64.\<close>

definition staleSurrogate :: string where
  "staleSurrogate = CHR 0xFF # ''.eyJleHAiOjE3MDAwMDAwNjB9.c2ln''"

definition brokenSurrogate :: string where
  "brokenSurrogate = CHR 0xFF # ''.a.jwt''"

section \<open>The codec: decoding inverts encoding\<close>

lemma hexval_hexdigit: "n < 16 \<Longrightarrow> hexval (hexdigit n) = Some n"
  by (auto simp: hexval_def hexdigit_def Let_def)

lemma unreserved_ascii: "unreserved c \<Longrightarrow> (of_char c :: nat) < 128"
  by (auto simp: unreserved_def Let_def)

lemma unreserved_not_percent: "unreserved c \<Longrightarrow> c \<noteq> CHR ''%''"
  by (auto simp: unreserved_def Let_def)

lemma of_char_lt_256: "(of_char c :: nat) < 256"
  by (metis of_char_mod_256 mod_less_divisor zero_less_numeral)

lemma unescape_escape_all: "unescape (escape_all v) = Some (map tok v)"
proof (induction v)
  case Nil
  then show ?case by (simp add: escape_all_def)
next
  case (Cons c v)
  have lt: "(of_char c :: nat) div 16 < 16" "(of_char c :: nat) mod 16 < 16"
    using of_char_lt_256[of c] by (simp_all add: less_mult_imp_div_less)
  show ?case
  proof (cases "unreserved c")
    case True
    then show ?thesis using Cons unreserved_not_percent[OF True]
      by (simp add: escape_all_def tok_def)
  next
    case False
    then show ?thesis using Cons lt
      by (simp add: escape_all_def tok_def escape_byte_def hexval_hexdigit)
  qed
qed

lemma tok_high: "128 \<le> (of_char c :: nat) \<Longrightarrow> tok c = Inr (of_char c)"
  using unreserved_ascii[of c] by (auto simp: tok_def)

lemma assemble_low:
  "(of_char c :: nat) < 128 \<Longrightarrow> assemble (tok c # r) = map_option ((#) c) (assemble r)"
  by (simp add: tok_def)

lemma assemble_tok: "utf8 (map of_char v) \<Longrightarrow> assemble (map tok v) = Some v"
proof (induction "map of_char v :: nat list" arbitrary: v rule: utf8.induct)
  case 1
  then show ?case by simp
next
  case (2 b r)
  then obtain c v' where v: "v = c # v'" "b = of_char c" "r = map of_char v'" by auto
  show ?case
  proof (cases "b < 128")
    case True
    then show ?thesis using 2 v by (simp add: assemble_low)
  next
    case False
    note hi = this
    have tc: "tok c = Inr b" using hi v tok_high[of c] by simp
    show ?thesis
    proof (cases v')
      case Nil
      then show ?thesis using 2 v hi by (auto split: if_splits)
    next
      case (Cons c1 v1)
      note v1 = this
      show ?thesis
      proof (cases "b < 224")
        case True
        then show ?thesis using 2 v hi tc v1 tok_high[of c1]
          by (auto simp: utf8_seq2_def cont_def split: if_splits)
      next
        case False
        note b224 = this
        show ?thesis
        proof (cases v1)
          case Nil
          then show ?thesis using 2 v hi v1 b224 by (auto split: if_splits)
        next
          case (Cons c2 v2)
          note v2 = this
          show ?thesis
          proof (cases "b < 240")
            case True
            then show ?thesis using 2 v hi tc v1 v2 b224 tok_high[of c1] tok_high[of c2]
              by (auto simp: utf8_seq3_def cont_def split: if_splits)
          next
            case False
            note b240 = this
            show ?thesis
            proof (cases v2)
              case Nil
              then show ?thesis using 2 v hi v1 v2 b224 b240 by (auto split: if_splits)
            next
              case (Cons c3 v3)
              then show ?thesis
                using 2 v hi tc v1 v2 b224 b240 tok_high[of c1] tok_high[of c2] tok_high[of c3]
                by (auto simp: utf8_seq4_def cont_def split: if_splits)
            qed
          qed
        qed
      qed
    qed
  qed
qed

lemma hexdigit_range:
  "n < 16 \<Longrightarrow> (of_char (hexdigit n) :: nat) \<in> {48..57} \<union> {65..70}"
  by (auto simp: hexdigit_def)

lemma hexdigit_plain:
  assumes "n < 16"
  shows "hexdigit n \<noteq> CHR '';'' \<and> hexdigit n \<noteq> CHR ''='' \<and> \<not> wsp (hexdigit n)"
  using hexdigit_range[OF assms] by (auto simp: wsp_def)

lemma decode_encode:
  "encodeURIComponent v = Some enc \<Longrightarrow> decodeURIComponent enc = Some v"
  by (auto simp: encodeURIComponent_def decodeURIComponent_def unescape_escape_all
      assemble_tok wellFormed_def split: if_splits)

lemma escape_all_chars:
  "c \<in> set (escape_all v) \<Longrightarrow> c \<noteq> CHR '';'' \<and> c \<noteq> CHR ''='' \<and> \<not> wsp c"
proof -
  assume "c \<in> set (escape_all v)"
  then obtain x where x: "x \<in> set v" "c \<in> set (if unreserved x then [x] else escape_byte x)"
    by (auto simp: escape_all_def)
  have lt: "(of_char x :: nat) div 16 < 16" "(of_char x :: nat) mod 16 < 16"
    using of_char_lt_256[of x] by (simp_all add: less_mult_imp_div_less)
  show ?thesis
  proof (cases "unreserved x")
    case True
    then show ?thesis using x by (auto simp: unreserved_def wsp_def Let_def)
  next
    case False
    then have "c = CHR ''%'' \<or> c = hexdigit (of_char x div 16) \<or> c = hexdigit (of_char x mod 16)"
      using x by (simp add: escape_byte_def)
    with lt have "c = CHR ''%'' \<or> (\<exists>n<16. c = hexdigit n)"
      by blast
    then show ?thesis using hexdigit_plain by (auto simp: wsp_def)
  qed
qed

section \<open>Reading the cookie text is a lookup in the jar\<close>

lemma split_on_none: "d \<notin> set x \<Longrightarrow> split_on d x = [x]"
  by (induction x) auto

lemma split_on_append: "d \<notin> set x \<Longrightarrow> split_on d (x @ d # r) = x # split_on d r"
  by (induction x) auto

lemma split_join:
  "\<forall>x \<in> set xs. CHR '';'' \<notin> set x \<Longrightarrow>
   split_on CHR '';'' (join_with ''; '' xs) =
     (case xs of [] \<Rightarrow> [[]] | x # r \<Rightarrow> x # map ((#) CHR '' '') r)"
proof (induction xs rule: induct_list012)
  case 1
  then show ?case by simp
next
  case (2 x)
  then show ?case by (simp add: split_on_none)
next
  case (3 x y ys)
  then show ?case by (simp add: split_on_append)
qed

lemma prefix_upto_equals:
  "CHR ''='' \<notin> set n \<Longrightarrow> CHR ''='' \<notin> set name \<Longrightarrow>
   take (Suc (length name)) (n @ CHR ''='' # v) = name @ ''='' \<Longrightarrow> n = name"
proof (induction name arbitrary: n)
  case Nil
  then show ?case by (cases n) auto
next
  case (Cons a name)
  then show ?case by (cases n) auto
qed

lemma starts_with_text:
  "CHR ''='' \<notin> set n \<Longrightarrow> CHR ''='' \<notin> set name \<Longrightarrow>
   starts_with (name @ ''='') (n @ CHR ''='' # v) = (n = name)"
  using prefix_upto_equals[of n name v] by (auto simp: starts_with_def)

lemma scan_strip:
  "scanCookies p (map (dropWhile (\<lambda>x. x = CHR '' '')) cs) = scanCookies p cs"
  by (induction cs) (auto simp: Let_def)

lemma scan_texts:
  "wf_jar j \<Longrightarrow> CHR ''='' \<notin> set name \<Longrightarrow>
   scanCookies (name @ ''='') (map cookie_text j) =
     (case map_of j name of None \<Rightarrow> Miss
      | Some raw \<Rightarrow> (case decodeURIComponent raw of Some v \<Rightarrow> Hit v | None \<Rightarrow> Malformed))"
proof (induction j)
  case Nil
  then show ?case by simp
next
  case (Cons e j)
  obtain n v where e: "e = (n, v)" by (cases e)
  from Cons.prems have ok: "n \<noteq> []" "hd n \<noteq> CHR '' ''" "CHR ''='' \<notin> set n" and wf: "wf_jar j"
    by (auto simp: wf_jar_def cookie_ok_def e)
  have strip: "dropWhile (\<lambda>x. x = CHR '' '') (n @ CHR ''='' # v) = n @ CHR ''='' # v"
    using ok by (cases n) auto
  have sw: "starts_with (name @ ''='') (n @ CHR ''='' # v) = (n = name)"
    using starts_with_text[OF ok(3) Cons.prems(2)] .
  show ?case
  proof (cases "n = name")
    case True
    then show ?thesis using sw strip by (simp add: e cookie_text_def Let_def)
  next
    case False
    then show ?thesis using sw strip Cons.IH[OF wf Cons.prems(2)]
      by (simp add: e cookie_text_def Let_def)
  qed
qed

lemma trim_plain: "\<forall>c \<in> set x. \<not> wsp c \<Longrightarrow> trim x = x"
proof -
  assume a: "\<forall>c \<in> set x. \<not> wsp c"
  then have "dropWhile wsp x = x" by (cases x) auto
  moreover from a have "\<forall>c \<in> set (rev x). \<not> wsp c" by simp
  then have "dropWhile wsp (rev x) = rev x" by (cases "rev x") simp_all
  ultimately show ?thesis by (simp add: trim_def)
qed

lemma takeWhile_all: "\<forall>c \<in> set x. P c \<Longrightarrow> takeWhile P x = x"
  by (induction x) auto

lemma parse_pair:
  assumes "plainKey name" "\<forall>c \<in> set enc. c \<noteq> CHR '';'' \<and> \<not> wsp c"
  shows "takeWhile (\<lambda>c. c \<noteq> CHR '';'') (name @ ''='' @ enc) = name @ ''='' @ enc"
    and "trim (takeWhile (\<lambda>c. c \<noteq> CHR ''='') (name @ ''='' @ enc)) = name"
    and "trim (drop 1 (dropWhile (\<lambda>c. c \<noteq> CHR ''='') (name @ ''='' @ enc))) = enc"
proof -
  show "takeWhile (\<lambda>c. c \<noteq> CHR '';'') (name @ ''='' @ enc) = name @ ''='' @ enc"
    using assms by (intro takeWhile_all) (auto simp: plainKey_def)
  have t: "takeWhile (\<lambda>c. c \<noteq> CHR ''='') (name @ ''='' @ enc) = name"
    using assms by (simp add: plainKey_def takeWhile_tail)
  have d: "dropWhile (\<lambda>c. c \<noteq> CHR ''='') (name @ ''='' @ enc) = ''='' @ enc"
    using assms by (simp add: plainKey_def dropWhile_append3)
  show "trim (takeWhile (\<lambda>c. c \<noteq> CHR ''='') (name @ ''='' @ enc)) = name"
    unfolding t using assms by (intro trim_plain) (auto simp: plainKey_def)
  show "trim (drop 1 (dropWhile (\<lambda>c. c \<noteq> CHR ''='') (name @ ''='' @ enc))) = enc"
    unfolding d using assms by (simp add: trim_plain)
qed

lemma docCookieSet_put:
  assumes "mode s = CookiesOn" "plainKey name" "\<forall>c \<in> set enc. c \<noteq> CHR '';'' \<and> \<not> wsp c"
    "clock s < e"
  shows "docCookieSet (name @ ''='' @ enc) e s = Some (s\<lparr>jar := jar_put name enc (jar s)\<rparr>)"
  unfolding docCookieSet_def Let_def parse_pair[OF assms(2,3)]
  using assms(1,2,4) by (simp add: plainKey_def)

lemma docCookieSet_del:
  assumes "mode s = CookiesOn" "plainKey name" "e \<le> clock s"
  shows "docCookieSet (name @ ''='') e s = Some (s\<lparr>jar := jar_del name (jar s)\<rparr>)"
proof -
  have e: "\<forall>c \<in> set ([]::string). c \<noteq> CHR '';'' \<and> \<not> wsp c" by simp
  show ?thesis
    using assms parse_pair[OF assms(2) e]
    by (simp add: docCookieSet_def Let_def plainKey_def)
qed

lemma map_of_jar_put: "map_of (jar_put n v j) = (map_of j)(n \<mapsto> v)"
proof (cases "n \<in> fst ` set j")
  case False
  then have "map_of j n = None" by (simp add: map_of_eq_None_iff)
  then show ?thesis using False
    by (auto simp: jar_put_def map_add_def fun_eq_iff split: option.splits)
next
  case True
  have "\<And>m. map_of (map (\<lambda>(n', v'). if n' = n then (n', v) else (n', v')) j) m =
       (if m = n then (case map_of j n of None \<Rightarrow> None | Some _ \<Rightarrow> Some v) else map_of j m)"
    by (induction j) (auto split: option.splits)
  moreover from True obtain w where "map_of j n = Some w"
    by (metis map_of_eq_None_iff not_Some_eq)
  ultimately show ?thesis using True by (auto simp: jar_put_def fun_eq_iff)
qed

lemma map_of_jar_del: "map_of (jar_del n j) = (map_of j)(n := None)"
  by (induction j) (auto simp: jar_del_def fun_eq_iff)

lemma wf_jar_put: "wf_jar j \<Longrightarrow> cookie_ok (n, v) \<Longrightarrow> wf_jar (jar_put n v j)"
  by (auto simp: wf_jar_def jar_put_def cookie_ok_def split: if_splits)

lemma wf_jar_del: "wf_jar j \<Longrightarrow> wf_jar (jar_del n j)"
  by (auto simp: wf_jar_def jar_del_def)

lemma cookie_ok_escaped: "plainKey name \<Longrightarrow> cookie_ok (name, escape_all v)"
  using escape_all_chars[of _ v]
  by (cases name) (auto simp: cookie_ok_def plainKey_def wsp_def)

lemma scan_jar:
  assumes "wf_jar j" "CHR ''='' \<notin> set name"
  shows "scanCookies (name @ ''='') (split_on CHR '';'' (join_with ''; '' (map cookie_text j)))
         = probe name j"
proof -
  have nosemi: "\<forall>x \<in> set (map cookie_text j). CHR '';'' \<notin> set x"
    using assms(1) by (auto simp: wf_jar_def cookie_ok_def cookie_text_def)
  have strip: "\<And>e. e \<in> set j \<Longrightarrow> dropWhile (\<lambda>x. x = CHR '' '') (cookie_text e) = cookie_text e"
  proof -
    fix e assume "e \<in> set j"
    then have "fst e \<noteq> []" "hd (fst e) \<noteq> CHR '' ''"
      using assms(1) by (auto simp: wf_jar_def cookie_ok_def)
    then show "dropWhile (\<lambda>x. x = CHR '' '') (cookie_text e) = cookie_text e"
      by (cases "fst e") (auto simp: cookie_text_def)
  qed
  show ?thesis
  proof (cases j)
    case Nil
    then show ?thesis by (simp add: probe_def starts_with_def)
  next
    case (Cons e r)
    let ?cs = "cookie_text e # map ((#) CHR '' '') (map cookie_text r)"
    have "map (dropWhile (\<lambda>x. x = CHR '' '')) ?cs = map cookie_text j"
      using strip Cons by simp
    then have "scanCookies (name @ ''='') ?cs = scanCookies (name @ ''='') (map cookie_text j)"
      using scan_strip[of "name @ ''=''" ?cs] by simp
    then show ?thesis
      using split_join[OF nosemi] Cons scan_texts[OF assms] by (simp add: probe_def)
  qed
qed

lemma same_env_refl: "same_env s s"
  by (simp add: same_env_def)

lemma same_env_trans: "same_env a b \<Longrightarrow> same_env b c \<Longrightarrow> same_env a c"
  by (simp add: same_env_def)

lemma same_env_setItem: "same_env s (setItem k v s)"
  by (simp add: same_env_def setItem_def)

lemma same_env_removeItem: "same_env s (removeItem k s)"
  by (simp add: same_env_def removeItem_def)

lemma docCookieSet_frame:
  "docCookieSet t e s = Some s' \<Longrightarrow> same_env s s' \<and> ls s' = ls s"
  by (auto simp: docCookieSet_def same_env_def Let_def split: cookie_mode.splits if_splits)

lemma same_env_setCookie: "same_env s (setCookie n v d s)"
  by (auto simp: setCookie_def Let_def same_env_setItem same_env_refl
      split: option.splits dest!: docCookieSet_frame
      intro: same_env_trans[OF _ same_env_setItem])

lemma same_env_removeCookie: "same_env s (removeCookie n s)"
  by (auto simp: removeCookie_def same_env_refl
      split: option.splits dest!: docCookieSet_frame
      intro: same_env_trans[OF _ same_env_trans[OF same_env_removeItem same_env_removeItem]]
             same_env_trans[OF same_env_removeItem same_env_removeItem])

lemma ls_setCookie:
  "isBrowser s \<Longrightarrow> ls (setCookie n v d s) = (ls s)((mirrorKey n) \<mapsto> v)"
  by (auto simp: setCookie_def Let_def setItem_def split: option.splits dest!: docCookieSet_frame)

lemma ls_removeCookie:
  "isBrowser s \<Longrightarrow> ls (removeCookie n s) = (ls s)((mirrorKey n) := None, n := None)"
  by (auto simp: removeCookie_def removeItem_def split: option.splits dest!: docCookieSet_frame)

lemma jar_setItem: "jar (setItem k v s) = jar s"
  by (simp add: setItem_def)

lemma jar_removeItem: "jar (removeItem k s) = jar s"
  by (simp add: removeItem_def)

lemma setCookie_on:
  assumes "isBrowser s" "mode s = CookiesOn" "plainKey name" "wellFormed v" "0 < d"
  shows "setCookie name v d s =
         s\<lparr>jar := jar_put name (escape_all v) (jar s), ls := (ls s)((mirrorKey name) \<mapsto> v)\<rparr>"
proof -
  have e: "\<forall>c \<in> set (escape_all v). c \<noteq> CHR '';'' \<and> \<not> wsp c"
    using escape_all_chars[of _ v] by blast
  have "clock s < clock s + d * 24 * 60 * 60 * 1000" using assms(5) by simp
  from docCookieSet_put[OF assms(2,3) e this] show ?thesis
    using assms(1,4) by (simp add: setCookie_def encodeURIComponent_def setItem_def)
qed

lemma setCookie_no_jar:
  assumes "isBrowser s" "mode s \<noteq> CookiesOn \<or> \<not> wellFormed v"
  shows "setCookie name v d s = setItem (mirrorKey name) v s"
  using assms
  by (cases "mode s") (auto simp: setCookie_def encodeURIComponent_def docCookieSet_def Let_def)

lemma getCookie_on:
  assumes "isBrowser s" "mode s = CookiesOn" "wf_jar (jar s)" "CHR ''='' \<notin> set name"
  shows "getCookie name s =
     (case probe name (jar s) of
        Malformed \<Rightarrow> (or_else (ls s (mirrorKey name)) (ls s name), s)
      | Hit v \<Rightarrow> (Some v, setItem (mirrorKey name) v s)
      | Miss \<Rightarrow>
          (if truthy (ls s (mirrorKey name))
           then (ls s (mirrorKey name), setCookie name (the (ls s (mirrorKey name))) 30 s)
           else (ls s name, s)))"
  using assms(1,2) scan_jar[OF assms(3,4)]
  by (simp add: getCookie_def docCookieGet_def Let_def split: scan.splits)

lemma getCookie_off:
  assumes "isBrowser s" "mode s = CookiesOff"
  shows "getCookie name s =
          (if truthy (ls s (mirrorKey name))
           then (ls s (mirrorKey name), setCookie name (the (ls s (mirrorKey name))) 30 s)
           else (ls s name, s))"
  using assms by (simp add: getCookie_def docCookieGet_def Let_def starts_with_def)

lemma getCookie_blocked:
  assumes "isBrowser s" "mode s = CookiesBlocked"
  shows "getCookie name s = (or_else (ls s (mirrorKey name)) (ls s name), s)"
  using assms by (simp add: getCookie_def docCookieGet_def Let_def)

section \<open>Removing the token\<close>

lemma plainKey_auth_token: "plainKey ''auth_token''"
  by (simp add: plainKey_def wsp_def)

lemma jar_del_idem: "jar_del n (jar_del n j) = jar_del n j"
  by (simp add: jar_del_def)

lemma jar_put_idem: "jar_put n v (jar_put n v j) = jar_put n v j"
proof (cases "n \<in> fst ` set j")
  case True
  then have "n \<in> fst ` set (map (\<lambda>(n', v'). if n' = n then (n', v) else (n', v')) j)"
    by (force simp: image_iff split: prod.splits)
  then show ?thesis using True
    by (auto simp: jar_put_def split: prod.splits)
next
  case False
  then have "map (\<lambda>(n', v'). if n' = n then (n', v) else (n', v')) j = j"
    by (induction j) auto
  then show ?thesis using False by (simp add: jar_put_def)
qed

lemma removeCookie_browser:
  assumes "isBrowser s" "plainKey name"
  shows "removeCookie name s =
     s\<lparr>jar := (if mode s = CookiesOn
                then (if 0 \<le> clock s then jar_del name (jar s) else jar_put name [] (jar s))
                else jar s),
       ls := (ls s)(mirrorKey name := None, name := None)\<rparr>"
proof (cases "mode s")
  case CookiesOn
  show ?thesis
  proof (cases "0 \<le> clock s")
    case True
    from docCookieSet_del[OF CookiesOn assms(2) True] show ?thesis
      using assms(1) CookiesOn True by (simp add: removeCookie_def removeItem_def)
  next
    case False
    then have "clock s < 0" by simp
    from docCookieSet_put[OF CookiesOn assms(2) _ this, of "[]"] show ?thesis
      using assms(1) CookiesOn False by (simp add: removeCookie_def removeItem_def)
  qed
next
  case CookiesOff
  then show ?thesis using assms(1)
    by (simp add: removeCookie_def removeItem_def docCookieSet_def)
next
  case CookiesBlocked
  then show ?thesis using assms(1)
    by (simp add: removeCookie_def removeItem_def docCookieSet_def)
qed

lemma removeToken_browser:
  assumes "isBrowser s"
  shows "removeToken s =
     s\<lparr>jar := (if mode s = CookiesOn
                then (if 0 \<le> clock s then jar_del ''auth_token'' (jar s)
                      else jar_put ''auth_token'' [] (jar s))
                else jar s),
       ls := (ls s)(mirrorKey ''auth_token'' := None, ''auth_token'' := None,
                    ''auth_token_expiry'' := None)\<rparr>"
  using assms removeCookie_browser[OF assms plainKey_auth_token]
  by (simp add: removeToken_def removeItem_def)

lemma removeToken_twice: "removeToken (removeToken s) = removeToken s"
proof (cases "isBrowser s")
  case False
  then show ?thesis by (simp add: removeToken_def)
next
  case True
  let ?s = "removeToken s"
  have b: "isBrowser ?s" using True by (simp add: removeToken_browser)
  show ?thesis
    by (subst removeToken_browser[OF b]) (simp add: removeToken_browser[OF True] jar_del_idem jar_put_idem)
qed

lemma setItem_same: "ls s k = Some v \<Longrightarrow> setItem k v s = s"
  by (simp add: setItem_def fun_upd_idem)

lemma plainKey_no_eq: "plainKey k \<Longrightarrow> CHR ''='' \<notin> set k"
  by (auto simp: plainKey_def)

lemma getCookie_holds:
  assumes "holds key v s" "plainKey key"
  shows "getCookie key s = (Some v, s)"
proof -
  from assms(1) have b: "isBrowser s" and wf: "wf_jar (jar s)" and l: "ls s key = Some v"
    and m: "ls s (mirrorKey key) = Some v"
    by (simp_all add: holds_def)
  note ne = plainKey_no_eq[OF assms(2)]
  show ?thesis
  proof (cases "mode s")
    case CookiesOn
    then have "probe key (jar s) = Hit v" using assms(1) by (simp add: holds_def)
    then show ?thesis using getCookie_on[OF b CookiesOn wf ne] m
      by (simp add: setItem_same)
  next
    case CookiesOff
    then have "setCookie key v 30 s = s"
      using setCookie_no_jar[OF b, of v key 30] m by (simp add: setItem_same)
    then show ?thesis using getCookie_off[OF b CookiesOff, of key] m l
      by (auto simp: truthy_def)
  next
    case CookiesBlocked
    then show ?thesis using getCookie_blocked[OF b CookiesBlocked, of key] m l
      by (auto simp: truthy_def or_else_def)
  qed
qed

lemma probe_put:
  "wellFormed v \<Longrightarrow> probe key (jar_put key (escape_all v) j) = Hit v"
  using decode_encode[of v "escape_all v"]
  by (simp add: probe_def map_of_jar_put encodeURIComponent_def)

lemma holds_after_write:
  assumes "isBrowser s" "wf_jar (jar s)" "plainKey key" "wellFormed v" "0 < d"
  shows "holds key v (setItem key v (setCookie key v d s))"
proof (cases "mode s = CookiesOn")
  case True
  show ?thesis
    using assms True wf_jar_put[OF assms(2) cookie_ok_escaped[OF assms(3), of v]]
    by (simp add: setCookie_on[OF assms(1) True assms(3,4,5)] holds_def setItem_def probe_put)
next
  case False
  then show ?thesis using assms
    by (simp add: setCookie_no_jar holds_def setItem_def)
qed

lemma same_env_after_write: "same_env s (setItem key v (setCookie key v d s))"
  using same_env_trans[OF same_env_setCookie same_env_setItem] .

lemma plainKey_prefs: "plainKey ''history_timezone''" "plainKey ''network_unit''"
  by (simp_all add: plainKey_def wsp_def)

lemma getCookie_unstored:
  assumes "isBrowser s" "wf_jar (jar s)" "plainKey key" "unstored key s"
  shows "getCookie key s = (None, s)"
proof (cases "mode s")
  case CookiesOn
  then have "probe key (jar s) = Miss" using assms(4) by (simp add: unstored_def probe_def)
  then show ?thesis
    using getCookie_on[OF assms(1) CookiesOn assms(2) plainKey_no_eq[OF assms(3)]] assms(4)
    by (simp add: unstored_def truthy_def)
next
  case CookiesOff
  then show ?thesis using getCookie_off[OF assms(1) CookiesOff, of key] assms(4)
    by (simp add: unstored_def truthy_def)
next
  case CookiesBlocked
  then show ?thesis using getCookie_blocked[OF assms(1) CookiesBlocked, of key] assms(4)
    by (simp add: unstored_def truthy_def or_else_def)
qed

lemma getPreference_unstored:
  assumes "wf_jar (jar s)" "plainKey key" "unstored key s"
  shows "getPreference key dflt s = (dflt, s)"
proof (cases "isBrowser s")
  case False
  then show ?thesis by (simp add: getPreference_def)
next
  case True
  show ?thesis using True assms(3)
    by (simp add: getPreference_def getCookie_unstored[OF True assms] truthy_def unstored_def)
qed


lemma wf_jar_loggedIn: "wf_jar (jar loggedIn)"
  by (simp add: loggedIn_def wf_jar_def cookie_ok_def)

lemma wellFormed_samples: "wellFormed ''xyz''" "wellFormed ''''" "wellFormed ''Mbps''"
  by (simp_all add: wellFormed_def)

lemma cookieRead_on:
  assumes "mode s = CookiesOn" "wf_jar (jar s)" "plainKey key"
  shows "cookieRead key s = Some (probe key (jar s))"
  using assms(1) scan_jar[OF assms(2) plainKey_no_eq[OF assms(3)]]
  by (simp add: cookieRead_def docCookieGet_def)

lemma base_facts: "isBrowser base" "mode base = CookiesOn" "wf_jar (jar base)"
  by (simp_all add: base_def wf_jar_def)

lemma decode_Mbps: "decodeURIComponent ''Mbps'' = Some ''Mbps''"
  by (simp add: decodeURIComponent_def)

lemma cookieRead_off: "mode s = CookiesOff \<Longrightarrow> cookieRead key s = Some Miss"
  by (simp add: cookieRead_def docCookieGet_def starts_with_def)

lemma cookieRead_blocked: "mode s = CookiesBlocked \<Longrightarrow> cookieRead key s = None"
  by (simp add: cookieRead_def docCookieGet_def)

lemma sample_reads:
  "cookieRead ''network_unit'' cookieOnly = Some (Hit ''Mbps'')"
  "cookieRead ''network_unit'' mirrorOnly = Some Miss"
  "cookieRead ''network_unit'' legacyOnly = Some Miss"
  "cookieRead ''network_unit'' cookiesOffMirror = Some Miss"
  "cookieRead ''network_unit'' blockedMirror = None"
proof -
  have c: "mode cookieOnly = CookiesOn" "wf_jar (jar cookieOnly)"
    by (simp_all add: cookieOnly_def base_def wf_jar_def cookie_ok_def)
  show "cookieRead ''network_unit'' cookieOnly = Some (Hit ''Mbps'')"
    using cookieRead_on[OF c plainKey_prefs(2)]
    by (simp add: cookieOnly_def probe_def decode_Mbps)
  have m: "mode mirrorOnly = CookiesOn" "wf_jar (jar mirrorOnly)"
    by (simp_all add: mirrorOnly_def base_def wf_jar_def)
  show "cookieRead ''network_unit'' mirrorOnly = Some Miss"
    using cookieRead_on[OF m plainKey_prefs(2)]
    by (simp add: mirrorOnly_def base_def probe_def)
  have l: "mode legacyOnly = CookiesOn" "wf_jar (jar legacyOnly)"
    by (simp_all add: legacyOnly_def base_def wf_jar_def)
  show "cookieRead ''network_unit'' legacyOnly = Some Miss"
    using cookieRead_on[OF l plainKey_prefs(2)]
    by (simp add: legacyOnly_def base_def probe_def)
  show "cookieRead ''network_unit'' cookiesOffMirror = Some Miss"
    by (simp add: cookieRead_off cookiesOffMirror_def)
  show "cookieRead ''network_unit'' blockedMirror = None"
    by (simp add: cookieRead_blocked blockedMirror_def)
qed

lemma sample_states:
  "isBrowser cookieOnly \<and> wf_jar (jar cookieOnly) \<and> mode cookieOnly = CookiesOn"
  "isBrowser mirrorOnly \<and> wf_jar (jar mirrorOnly) \<and> mode mirrorOnly = CookiesOn"
  "isBrowser legacyOnly \<and> wf_jar (jar legacyOnly) \<and> mode legacyOnly = CookiesOn"
  "isBrowser cookiesOffMirror \<and> wf_jar (jar cookiesOffMirror) \<and> mode cookiesOffMirror = CookiesOff"
  "isBrowser blockedMirror \<and> wf_jar (jar blockedMirror) \<and> mode blockedMirror = CookiesBlocked"
  by (simp_all add: cookieOnly_def mirrorOnly_def legacyOnly_def cookiesOffMirror_def
      blockedMirror_def base_def wf_jar_def cookie_ok_def)

lemma sample_stores:
  "ls mirrorOnly (mirrorKey ''network_unit'') = Some ''Mbps''"
  "ls cookiesOffMirror (mirrorKey ''network_unit'') = Some ''Mbps''"
  "ls blockedMirror (mirrorKey ''network_unit'') = Some ''Mbps''"
  "ls legacyOnly (mirrorKey ''network_unit'') = None"
  "ls legacyOnly ''network_unit'' = Some ''Mbps''"
  by (simp_all add: mirrorOnly_def legacyOnly_def cookiesOffMirror_def blockedMirror_def
      base_def mirrorKey_def)

lemma isTokenExpired_env:
  "same_env s s' \<Longrightarrow> isTokenExpired s' t = isTokenExpired s t"
  by (auto simp: isTokenExpired_def same_env_def toNumber_def split: option.splits json.splits)

lemma holds_setItem_other:
  "holds key v s \<Longrightarrow> k \<noteq> key \<Longrightarrow> k \<noteq> mirrorKey key \<Longrightarrow> holds key v (setItem k x s)"
  by (simp add: holds_def setItem_def)

lemma expiry_key_distinct:
  "''auth_token_expiry'' \<noteq> ''auth_token''" "''auth_token_expiry'' \<noteq> mirrorKey ''auth_token''"
  by (simp_all add: mirrorKey_def)

lemma holds_setToken:
  assumes "isBrowser s" "wf_jar (jar s)" "wellFormed t"
  shows "holds ''auth_token'' t (setToken t s)"
proof -
  let ?s2 = "setItem ''auth_token'' t (setCookie ''auth_token'' t 30 s)"
  have h: "holds ''auth_token'' t ?s2"
    using holds_after_write[OF assms(1,2) plainKey_auth_token assms(3), of 30] by simp
  have "setToken t s = ?s2 \<or> (\<exists>x. setToken t s = setItem ''auth_token_expiry'' x ?s2)"
    using assms(1) by (auto simp: setToken_def Let_def split: option.splits)
  then show ?thesis
    using h holds_setItem_other[OF h expiry_key_distinct] by auto
qed

lemma same_env_setToken: "same_env s (setToken t s)"
proof -
  let ?s2 = "setItem ''auth_token'' t (setCookie ''auth_token'' t 30 s)"
  have e: "same_env s ?s2" by (rule same_env_after_write)
  have "setToken t s = s \<or> setToken t s = ?s2 \<or> (\<exists>x. setToken t s = setItem ''auth_token_expiry'' x ?s2)"
    by (auto simp: setToken_def Let_def split: option.splits)
  then show ?thesis
    using e same_env_trans[OF e same_env_setItem] same_env_refl by auto
qed

lemma getToken_holds:
  assumes "holds ''auth_token'' t s"
  shows "getToken s =
     (if t \<noteq> [] \<and> isTokenExpired s t then (None, removeToken s) else (Some t, s))"
  using assms getCookie_holds[OF assms plainKey_auth_token]
  by (simp add: getToken_def holds_def truthy_def)

lemma isAuthenticated_holds:
  assumes "holds ''auth_token'' t s"
  shows "fst (isAuthenticated s) = (t \<noteq> [] \<and> \<not> isTokenExpired s t)"
  using assms getToken_holds[OF assms]
  by (simp add: isAuthenticated_def holds_def truthy_def)

lemma get_exp_truthy: "get_exp d = Some e \<Longrightarrow> truthyJ d"
  by (cases d) (simp_all add: get_exp_def truthyJ_def)

lemma decodeToken_nonempty: "decodeToken t = Some d \<Longrightarrow> t \<noteq> []"
  by (auto simp: decodeToken_def)

lemma unstored_removeToken:
  assumes "isBrowser s" "0 \<le> clock s"
  shows "unstored ''auth_token'' (removeToken s)"
  using assms
  by (simp add: removeToken_browser[OF assms(1)] unstored_def map_of_jar_del mirrorKey_def)

lemma getToken_removed:
  assumes "isBrowser s" "wf_jar (jar s)" "0 \<le> clock s"
  shows "getToken (removeToken s) = (None, removeToken s)"
proof -
  let ?s = "removeToken s"
  have b: "isBrowser ?s" using assms(1) by (simp add: removeToken_browser)
  have wf: "wf_jar (jar ?s)"
    using assms by (simp add: removeToken_browser wf_jar_del)
  have u: "unstored ''auth_token'' ?s" by (rule unstored_removeToken[OF assms(1,3)])
  show ?thesis
    using b u getCookie_unstored[OF b wf plainKey_auth_token u]
    by (simp add: getToken_def truthy_def unstored_def)
qed

lemma wellFormed_tokens:
  "wellFormed sampleToken" "wellFormed boundaryToken" "wellFormed freshToken"
  "wellFormed twoSegments" "wellFormed claimsWithoutExp" "wellFormed ''not.a.jwt''"
  unfolding sampleToken_def boundaryToken_def freshToken_def twoSegments_def claimsWithoutExp_def
  by (simp_all add: wellFormed_def)

lemma get_exp_single: "get_exp (JObj [(''exp'', e)]) = Some e"
  by (simp add: get_exp_def)

lemma cookieRead_unstored:
  assumes "mode s = CookiesOn" "wf_jar (jar s)" "plainKey key" "unstored key s"
  shows "cookieRead key s = Some Miss"
  using cookieRead_on[OF assms(1,2,3)] assms(1,4) by (simp add: unstored_def probe_def)

lemma cookieRead_holds:
  assumes "mode s = CookiesOn" "plainKey key" "holds key v s"
  shows "cookieRead key s = Some (Hit v)"
  using cookieRead_on[OF assms(1) _ assms(2)] assms(1,3) by (simp add: holds_def)



lemma cache_fields:
  "isBrowser (cacheSet x s) = isBrowser s" "mode (cacheSet x s) = mode s"
  "jar (cacheSet x s) = jar s" "clock (cacheSet x s) = clock s"
  "coerce (cacheSet x s) = coerce s" "render (cacheSet x s) = render s"
  "k \<noteq> ''auth_token_expiry'' \<Longrightarrow> ls (cacheSet x s) k = ls s k"
  by (simp_all add: cacheSet_def)

lemma cacheSet_twice: "cacheSet y (cacheSet x s) = cacheSet y s"
  by (simp add: cacheSet_def)

lemma docCookieGet_cache: "docCookieGet (cacheSet x s) = docCookieGet s"
  by (simp add: docCookieGet_def cacheSet_def split: cookie_mode.splits)

lemma docCookieSet_cache:
  "docCookieSet t e (cacheSet x s) = map_option (cacheSet x) (docCookieSet t e s)"
  by (simp add: docCookieSet_def cacheSet_def Let_def split: cookie_mode.splits)

lemma setItem_cache:
  "k \<noteq> ''auth_token_expiry'' \<Longrightarrow> setItem k v (cacheSet x s) = cacheSet x (setItem k v s)"
  by (simp add: setItem_def cacheSet_def fun_upd_twist)

lemma removeItem_cache:
  "k \<noteq> ''auth_token_expiry'' \<Longrightarrow> removeItem k (cacheSet x s) = cacheSet x (removeItem k s)"
  by (simp add: removeItem_def cacheSet_def fun_upd_twist)

lemma removeItem_cache_key:
  "removeItem ''auth_token_expiry'' (cacheSet x s) = removeItem ''auth_token_expiry'' s"
  by (simp add: removeItem_def cacheSet_def)

lemma setCookie_cache:
  assumes "mirrorKey n \<noteq> ''auth_token_expiry''"
  shows "setCookie n v d (cacheSet x s) = cacheSet x (setCookie n v d s)"
  using assms
  by (simp add: setCookie_def Let_def cache_fields docCookieSet_cache setItem_cache
      split: option.splits)

lemma removeCookie_cache:
  assumes "mirrorKey n \<noteq> ''auth_token_expiry''" "n \<noteq> ''auth_token_expiry''"
  shows "removeCookie n (cacheSet x s) = cacheSet x (removeCookie n s)"
  using assms
  by (simp add: removeCookie_def cache_fields docCookieSet_cache removeItem_cache
      split: option.splits)

lemma getCookie_cache:
  assumes "mirrorKey n \<noteq> ''auth_token_expiry''" "n \<noteq> ''auth_token_expiry''"
  shows "getCookie n (cacheSet x s) = (fst (getCookie n s), cacheSet x (snd (getCookie n s)))"
  using assms
  by (simp add: getCookie_def Let_def cache_fields docCookieGet_cache setItem_cache
      setCookie_cache split: option.splits scan.splits)

lemma removeToken_cache:
  "isBrowser s \<Longrightarrow> removeToken (cacheSet x s) = removeToken s"
  using expiry_key_distinct
  by (simp add: removeToken_def cache_fields removeCookie_cache removeItem_cache
      removeItem_cache_key)

lemma removeToken_cacheSet_None:
  "isBrowser s \<Longrightarrow> cacheSet None (removeToken s) = removeToken s"
  by (simp add: removeToken_browser cacheSet_def)

lemma isTokenExpired_cache: "isTokenExpired (cacheSet x s) t = isTokenExpired s t"
  by (rule isTokenExpired_env) (simp add: same_env_def cacheSet_def)

lemma isBrowser_setCookie: "isBrowser (setCookie n v d s) = isBrowser s"
  using same_env_setCookie[of s n v d] by (simp add: same_env_def)

lemma getToken_cache:
  "fst (getToken (cacheSet x s)) = fst (getToken s) \<and>
   (\<exists>y. snd (getToken (cacheSet x s)) = cacheSet y (snd (getToken s)))"
proof (cases "isBrowser s")
  case False
  then show ?thesis by (auto simp: getToken_def cache_fields)
next
  case True
  obtain t s1 where g: "getCookie ''auth_token'' s = (t, s1)" by (cases "getCookie ''auth_token'' s")
  have gc: "getCookie ''auth_token'' (cacheSet x s) = (t, cacheSet x s1)"
    using getCookie_cache[of "''auth_token''" x s] expiry_key_distinct g by simp
  have b1: "isBrowser s1" using True g
    by (auto simp: getCookie_def Let_def setItem_def split: option.splits scan.splits if_splits
        intro: same_env_setCookie[unfolded same_env_def, THEN conjunct1, THEN iffD2])
  define tok where "tok = (if \<not> truthy t then ls s1 ''auth_token'' else t)"
  define s2 where "s2 = (if \<not> truthy t \<and> truthy (ls s1 ''auth_token'')
                         then setCookie ''auth_token'' (the (ls s1 ''auth_token'')) 30 s1 else s1)"
  have b2: "isBrowser s2"
    using b1 same_env_setCookie[of s1 "''auth_token''" "the (ls s1 ''auth_token'')" 30]
    by (simp add: s2_def same_env_def)
  have u: "getToken s =
      (if truthy tok \<and> isTokenExpired s2 (the tok) then (None, removeToken s2) else (tok, s2))"
    using True g by (simp add: getToken_def Let_def tok_def s2_def)
  have uc: "getToken (cacheSet x s) =
      (if truthy tok \<and> isTokenExpired s2 (the tok) then (None, removeToken s2)
       else (tok, cacheSet x s2))"
    using True gc expiry_key_distinct
    by (simp add: getToken_def Let_def tok_def s2_def cache_fields setCookie_cache
        isTokenExpired_cache removeToken_cache b1 isBrowser_setCookie)
  show ?thesis
    using u uc removeToken_cacheSet_None[OF b2] by (auto intro: exI[of _ None] exI[of _ x])
qed

section \<open>Rounding to doubles\<close>

lemma round_half_even_int: "round_half_even (of_int m) = m"
  by (simp add: round_half_even_def)

lemma round_half_even_le:
  assumes "y \<le> of_int M"
  shows "round_half_even y \<le> M"
proof -
  have f: "\<lfloor>y\<rfloor> \<le> M" using assms by (simp add: floor_le_iff) 
  show ?thesis
  proof (cases "y = of_int \<lfloor>y\<rfloor>")
    case True
    then have "y - of_int \<lfloor>y\<rfloor> = 0" by simp
    then show ?thesis using f by (simp add: round_half_even_def Let_def)
  next
    case False
    then have "of_int \<lfloor>y\<rfloor> < y" using of_int_floor_le[of y] by (auto simp: less_le)
    then have "of_int \<lfloor>y\<rfloor> < (of_int M :: rat)" using assms by simp
    then have "\<lfloor>y\<rfloor> + 1 \<le> M" by simp
    then show ?thesis using f by (simp add: round_half_even_def Let_def)
  qed
qed

lemma round_half_even_nonneg: "0 \<le> y \<Longrightarrow> 0 \<le> round_half_even y"
  by (simp add: round_half_even_def Let_def)

lemma bitlen_powi:
  assumes "0 < a"
  shows "(2::rat) powi (bitlen a - 1) \<le> of_int a" "of_int a < (2::rat) powi (bitlen a)"
proof -
  from bitlen_bounds[OF assms] have b: "2 ^ nat (bitlen a - 1) \<le> a" "a < 2 ^ nat (bitlen a)"
    by simp_all
  have p: "1 \<le> bitlen a" using assms by (simp add: bitlen_alt_def)
  have "(of_int (2 ^ nat (bitlen a - 1)) :: rat) \<le> of_int a" using b(1) by (simp only: of_int_le_iff)
  then show "(2::rat) powi (bitlen a - 1) \<le> of_int a" using p by (simp add: power_int_def)
  have "(of_int a :: rat) < of_int (2 ^ nat (bitlen a))" using b(2) by (simp only: of_int_less_iff)
  then show "of_int a < (2::rat) powi (bitlen a)" using p by (simp add: power_int_def)
qed

lemma binary_exponent_bounds:
  assumes "0 < q"
  shows "2 powi (binary_exponent q) \<le> q \<and> q < 2 powi (binary_exponent q + 1)"
proof -
  obtain a b where ab: "quotient_of q = (a, b)" by (cases "quotient_of q")
  then have bpos: "0 < b" by (rule quotient_of_denom_pos)
  have q: "q = of_int a / of_int b" using quotient_of_div[OF ab] .
  have apos: "0 < a" using assms bpos q by (simp add: zero_less_divide_iff)
  note A = bitlen_powi[OF apos] and B = bitlen_powi[OF bpos]
  let ?e0 = "bitlen a - bitlen b"
  have bq: "(0::rat) < of_int b" using bpos by simp
  have up: "q < 2 powi (?e0 + 1)"
  proof -
    have "of_int a < (2::rat) powi (bitlen a)" by (rule A(2))
    also have "\<dots> = 2 powi (?e0 + 1) * 2 powi (bitlen b - 1)"
      by (simp flip: power_int_add)
    also have "\<dots> \<le> 2 powi (?e0 + 1) * of_int b"
      using B(1) by (intro mult_left_mono) auto
    finally show ?thesis using bq by (simp add: q pos_divide_less_eq)
  qed
  have lo: "2 powi (?e0 - 1) < q"
  proof -
    have "2 powi (?e0 - 1) * of_int b < (2::rat) powi (?e0 - 1) * 2 powi (bitlen b)"
      using B(2) by (intro mult_strict_left_mono) auto
    also have "\<dots> = 2 powi (bitlen a - 1)" by (simp flip: power_int_add)
    also have "\<dots> \<le> of_int a" by (rule A(1))
    finally show ?thesis using bq by (simp add: q pos_less_divide_eq)
  qed
  show ?thesis
  proof (cases "2 powi ?e0 \<le> q")
    case True
    then show ?thesis using up ab by (simp add: binary_exponent_def)
  next
    case False
    then show ?thesis using lo ab by (simp add: binary_exponent_def)
  qed
qed

lemma round_positive_sign:
  assumes "0 < p"
  shows "round_positive p = PosInf \<or> (\<exists>v\<ge>0. round_positive p = Fin v)"
proof -
  have "0 \<le> p / 2 powi (max (binary_exponent p) (- 1022) - 52)" using assms by simp
  from round_half_even_nonneg[OF this] show ?thesis
    by (simp add: round_positive_def Let_def)
qed

lemma round_positive_small:
  assumes "0 < x" "x \<le> 2 ^ 53"
  shows "\<exists>E. E \<le> 53 \<and> (E = 53 \<longrightarrow> x = 2 ^ 53) \<and>
             round_positive x = Fin (of_int (round_half_even (x / 2 powi (E - 52))) * 2 powi (E - 52))"
proof -
  let ?e = "binary_exponent x"
  let ?E = "max ?e (- 1022)"
  note b = binary_exponent_bounds[OF assms(1)]
  have p53: "(2::rat) powi 53 = 2 ^ 53" by (simp add: power_int_def)
  have e53: "?e \<le> 53"
  proof (rule ccontr)
    assume "\<not> ?e \<le> 53"
    then have "53 < ?e" by simp
    from power_int_strict_increasing[OF this, of "2::rat"] show False
      using b assms(2) p53 by simp
  qed
  then have E53: "?E \<le> 53" by simp
  have eq: "?E = 53 \<longrightarrow> x = 2 ^ 53"
  proof
    assume "?E = 53"
    then have "?e = 53" by (simp add: max_def split: if_splits)
    then have "(2::rat) powi 53 \<le> x" using b by simp
    then show "x = 2 ^ 53" using assms(2) p53 by simp
  qed
  have no: "\<not> (1024 \<le> ?E \<or> (?E = 1023 \<and> round_half_even (x / 2 powi (?E - 52)) = 2 ^ 53))"
    using E53 by linarith
  have r: "round_positive x = Fin (of_int (round_half_even (x / 2 powi (?E - 52))) * 2 powi (?E - 52))"
    unfolding round_positive_def Let_def using no by (simp only: if_False)
  show ?thesis using E53 eq r by blast
qed

lemma scaled_integer:
  assumes "E \<le> 52"
  shows "(of_int N :: rat) / 2 powi (E - 52) = of_int (N * 2 ^ nat (52 - E))"
proof -
  have "(2::rat) powi (E - 52) = inverse (2 ^ nat (52 - E))"
    using assms by (auto simp: power_int_def inverse_eq_divide power_divide)
  then show ?thesis by (simp add: field_simps)
qed

lemma round_positive_le:
  assumes "0 < x" "x \<le> of_int N" "N \<le> 2 ^ 53"
  shows "\<exists>v. round_positive x = Fin v \<and> 0 \<le> v \<and> v \<le> of_int N"
proof -
  have "(of_int N :: rat) \<le> of_int (2 ^ 53)" using assms(3) by (simp only: of_int_le_iff)
  then have x53: "x \<le> 2 ^ 53" using assms(2) by simp
  from round_positive_small[OF assms(1) x53] obtain E where E: "E \<le> 53" "E = 53 \<longrightarrow> x = 2 ^ 53"
    and r: "round_positive x = Fin (of_int (round_half_even (x / 2 powi (E - 52))) * 2 powi (E - 52))"
    by blast
  let ?ulp = "(2::rat) powi (E - 52)"
  let ?m = "round_half_even (x / ?ulp)"
  have up: "(0::rat) < ?ulp" by simp
  have m0: "0 \<le> ?m" using assms(1) by (intro round_half_even_nonneg) simp
  have "of_int ?m * ?ulp \<le> of_int N"
  proof (cases "E = 53")
    case True
    then have x: "x = 2 ^ 53" using E by simp
    have "x / 2 powi (E - 52) = of_int (2 ^ 52)" using True x by simp
    then have "?m = 2 ^ 52" using round_half_even_int[of "2 ^ 52"] by simp
    then have "of_int ?m * ?ulp = x" using True x by simp
    then show ?thesis using assms(2) by simp
  next
    case False
    then have le: "E \<le> 52" using E by simp
    have "x / ?ulp \<le> of_int N / ?ulp" using assms(2) up by (simp add: divide_right_mono)
    then have "x / ?ulp \<le> of_int (N * 2 ^ nat (52 - E))" using scaled_integer[OF le] by simp
    then have "?m \<le> N * 2 ^ nat (52 - E)" by (rule round_half_even_le)
    then have "(of_int ?m :: rat) \<le> of_int (N * 2 ^ nat (52 - E))" by (simp only: of_int_le_iff)
    then have "(of_int ?m :: rat) \<le> of_int N / ?ulp" using scaled_integer[OF le] by simp
    then show ?thesis using up by (simp add: pos_le_divide_eq)
  qed
  then show ?thesis using r m0 up by simp
qed

lemma round_positive_int:
  assumes "0 < k" "k \<le> 2 ^ 53"
  shows "round_positive (of_int k) = Fin (of_int k)"
proof -
  have k: "(0::rat) < of_int k" using assms(1) by simp
  have "(of_int k :: rat) \<le> of_int (2 ^ 53)" using assms(2) by (simp only: of_int_le_iff)
  then have k53: "(of_int k :: rat) \<le> 2 ^ 53" by simp
  from round_positive_small[OF k k53] obtain E where E: "E \<le> 53" "E = 53 \<longrightarrow> (of_int k :: rat) = 2 ^ 53"
    and r: "round_positive (of_int k) =
      Fin (of_int (round_half_even (of_int k / 2 powi (E - 52))) * 2 powi (E - 52))"
    by blast
  let ?ulp = "(2::rat) powi (E - 52)"
  have "of_int (round_half_even (of_int k / ?ulp)) * ?ulp = of_int k"
  proof (cases "E = 53")
    case True
    then have x: "(of_int k :: rat) = 2 ^ 53" using E by simp
    have "of_int k / 2 powi (E - 52) = (of_int (2 ^ 52) :: rat)" using True x by simp
    then have "round_half_even (of_int k / ?ulp) = 2 ^ 52" using round_half_even_int[of "2 ^ 52"] by simp
    then show ?thesis using True x by simp
  next
    case False
    then have le: "E \<le> 52" using E by simp
    have "round_half_even (of_int k / ?ulp) = k * 2 ^ nat (52 - E)"
      using scaled_integer[OF le, of k] round_half_even_int[of "k * 2 ^ nat (52 - E)"] by simp
    then have "of_int (round_half_even (of_int k / ?ulp)) * ?ulp = (of_int k / ?ulp) * ?ulp"
      using scaled_integer[OF le, of k] by simp
    then show ?thesis by simp
  qed
  then show ?thesis using r by simp
qed

lemma round_double_int:
  assumes "\<bar>k\<bar> \<le> 2 ^ 53"
  shows "round_double (of_int k) = Fin (of_int k)"
proof -
  consider "k = 0" | "0 < k" | "k < 0" by linarith
  then show ?thesis
  proof cases
    case 1
    then show ?thesis by (simp add: round_double_def)
  next
    case 2
    then show ?thesis using assms round_positive_int[of k] by (simp add: round_double_def)
  next
    case 3
    then have "round_positive (of_int (- k)) = Fin (of_int (- k))"
      using assms by (intro round_positive_int) auto
    then show ?thesis using 3 by (simp add: round_double_def negate_def)
  qed
qed

lemma round_double_le:
  assumes "x \<le> of_int N" "0 \<le> N" "N \<le> 2 ^ 53"
  shows "js_le (round_double x) (Fin (of_int N))"
proof -
  consider "x = 0" | "0 < x" | "x < 0" by linarith
  then show ?thesis
  proof cases
    case 1
    then show ?thesis using assms(2) by (simp add: round_double_def js_le_def)
  next
    case 2
    from round_positive_le[OF 2 assms(1,3)] show ?thesis
      using 2 by (auto simp: round_double_def js_le_def)
  next
    case 3
    then have "0 < - x" by simp
    from round_positive_sign[OF this] show ?thesis
      using 3 assms(2) by (auto simp: round_double_def js_le_def negate_def)
  qed
qed

lemma getCookie_cookieRead:
  assumes "isBrowser s"
  shows "getCookie key s =
     (case cookieRead key s of
        None \<Rightarrow> (or_else (ls s (mirrorKey key)) (ls s key), s)
      | Some Malformed \<Rightarrow> (or_else (ls s (mirrorKey key)) (ls s key), s)
      | Some (Hit v) \<Rightarrow> (Some v, setItem (mirrorKey key) v s)
      | Some Miss \<Rightarrow>
          (if truthy (ls s (mirrorKey key))
           then (ls s (mirrorKey key), setCookie key (the (ls s (mirrorKey key))) 30 s)
           else (ls s key, s)))"
  using assms
  by (simp add: getCookie_def cookieRead_def Let_def split: option.splits scan.splits)

lemma wf_jar_setCookie:
  assumes "wf_jar (jar s)" "plainKey key" "0 < d"
  shows "wf_jar (jar (setCookie key v d s))"
proof (cases "isBrowser s")
  case False
  then show ?thesis using assms(1) by (simp add: setCookie_def)
next
  case True
  show ?thesis
  proof (cases "mode s = CookiesOn \<and> wellFormed v")
    case yes: True
    then show ?thesis
      using setCookie_on[OF True _ assms(2) _ assms(3), of v]
        wf_jar_put[OF assms(1) cookie_ok_escaped[OF assms(2), of v]]
      by simp
  next
    case False
    then have "mode s \<noteq> CookiesOn \<or> \<not> wellFormed v" by simp
    from setCookie_no_jar[OF True this, of key d] show ?thesis
      using assms(1) by (simp add: setItem_def)
  qed
qed

lemma mirror_distinct: "mirrorKey ''auth_token'' \<noteq> ''auth_token''"
  by (simp add: mirrorKey_def)

lemma getToken_found:
  assumes "isBrowser s"
  shows "\<exists>s2. same_env s s2 \<and> (wf_jar (jar s) \<longrightarrow> wf_jar (jar s2)) \<and>
           getToken s =
             (if truthy (tokenFound s) \<and> isTokenExpired s (the (tokenFound s))
              then (None, removeToken s2) else (tokenFound s, s2))"
proof -
  obtain t0 s1 where g: "getCookie ''auth_token'' s = (t0, s1)"
    by (cases "getCookie ''auth_token'' s")
  note gc = getCookie_cookieRead[OF assms, of "''auth_token''"]
  have e1: "same_env s s1"
    using g gc same_env_refl[of s] same_env_setItem[of s] same_env_setCookie[of s]
    by (auto split: option.splits scan.splits if_splits)
  have w1: "wf_jar (jar s) \<longrightarrow> wf_jar (jar s1)"
    using g gc wf_jar_setCookie[of s "''auth_token''" 30] plainKey_auth_token
    by (auto simp: setItem_def split: option.splits scan.splits if_splits)
  have l1: "ls s1 ''auth_token'' = ls s ''auth_token''"
    using g gc ls_setCookie[OF assms, of "''auth_token''"] mirror_distinct
    by (auto simp: setItem_def split: option.splits scan.splits if_splits)
  define tok where "tok = (if \<not> truthy t0 then ls s1 ''auth_token'' else t0)"
  define s2 where "s2 = (if \<not> truthy t0 \<and> truthy (ls s1 ''auth_token'')
                         then setCookie ''auth_token'' (the (ls s1 ''auth_token'')) 30 s1 else s1)"
  have tf: "tok = tokenFound s"
    using g gc l1
    by (auto simp: tok_def tokenFound_def Let_def split: option.splits scan.splits if_splits)
  have e2: "same_env s s2"
    using e1 same_env_trans[OF e1 same_env_setCookie] by (simp add: s2_def)
  have w2: "wf_jar (jar s) \<longrightarrow> wf_jar (jar s2)"
    using w1 wf_jar_setCookie[of s1 "''auth_token''" 30] plainKey_auth_token by (simp add: s2_def)
  have u: "getToken s =
      (if truthy tok \<and> isTokenExpired s2 (the tok) then (None, removeToken s2) else (tok, s2))"
    using assms g by (simp add: getToken_def Let_def tok_def s2_def)
  show ?thesis
    using u e2 w2 isTokenExpired_env[OF e2] by (auto simp: tf intro!: exI[of _ s2])
qed

lemma isAuthenticated_found:
  assumes "isBrowser s"
  shows "fst (isAuthenticated s) =
           (truthy (tokenFound s) \<and> \<not> isTokenExpired s (the (tokenFound s)))"
proof -
  from getToken_found[OF assms] obtain s2 where e: "same_env s s2"
    and g: "getToken s =
             (if truthy (tokenFound s) \<and> isTokenExpired s (the (tokenFound s))
              then (None, removeToken s2) else (tokenFound s, s2))"
    by blast
  show ?thesis
    using assms isTokenExpired_env[OF e]
    by (simp add: isAuthenticated_def g truthy_def split: option.splits)
qed


lemma decode_sampleToken:
  "decodeToken sampleToken = Some (JObj [(''exp'', JNum (Fin 1893456000))])"
  unfolding sampleToken_def by code_simp

lemma decode_boundaryToken:
  "decodeToken boundaryToken = Some (JObj [(''exp'', JNum (Fin 1700000060))])"
  unfolding boundaryToken_def by code_simp

lemma decode_freshToken:
  "decodeToken freshToken = Some (JObj [(''exp'', JNum (Fin 1700000061))])"
  unfolding freshToken_def by code_simp




lemma decode_fractionToken:
  "decodeToken fractionToken = Some (JObj [(''exp'', JNum (Fin (7130317051968619 / 4194304)))])"
  unfolding fractionToken_def by code_simp

lemma decode_writtenAtBoundary:
  "decodeToken writtenAtBoundary = Some (JObj [(''exp'', JNum (Fin (4508876925837509 / 2097152)))])"
  unfolding writtenAtBoundary_def by code_simp

lemma decode_loneSurrogate:
  "decodeToken loneSurrogate = Some (JObj [(''exp'', JNum (Fin 1893456000))])"
  unfolding loneSurrogate_def by code_simp

lemma times1000_fraction:
  "js_times (Fin (7130317051968619 / 4194304)) 1000 = Fin 1700000060074"
  by code_simp

lemma times1000_written:
  "js_times (Fin (4508876925837509 / 2097152)) 1000 = Fin (8806400245776385 / 4096)"
  by code_simp

lemma now_plus_exact:
  assumes "timeValue c"
  shows "round_double (of_int c + 60000) = Fin (of_int (c + 60000))"
proof -
  have "\<bar>c + 60000\<bar> \<le> 2 ^ 53" using assms by (simp add: timeValue_def)
  from round_double_int[OF this] show ?thesis by simp
qed

lemma expired_numeric:
  assumes "decodeToken t = Some d" "get_exp d = Some (JNum (Fin r))" "timeValue (clock s)"
  shows "isTokenExpired s t =
           (r = 0 \<or> js_le (round_double (r * 1000)) (Fin (of_int (clock s + 60000))))"
  using assms(1,2) get_exp_truthy[OF assms(2)] now_plus_exact[OF assms(3)]
  by (simp add: isTokenExpired_def toNumber_def truthyJ_def js_times_def)

lemma expired_within_buffer:
  assumes "decodeToken t = Some d" "get_exp d = Some (JNum (Fin r))" "timeValue (clock s)"
    "r \<le> of_int (clock s) / 1000 + 60"
  shows "isTokenExpired s t"
proof -
  have "r * 1000 \<le> of_int (clock s + 60000)" using assms(4) by (simp add: field_simps)
  from round_double_le[OF this] show ?thesis
    using assms(3) by (simp add: expired_numeric[OF assms(1,2,3)] timeValue_def)
qed

lemma times1000_whole:
  assumes "wholeSeconds r"
  shows "round_double (r * 1000) = Fin (r * 1000)"
proof -
  define n where "n = \<lfloor>r\<rfloor>"
  have n1: "r = of_int n" using assms by (simp add: wholeSeconds_def n_def)
  have "\<bar>of_int n :: rat\<bar> \<le> of_int 9007199254740"
    using assms n1 by (simp add: wholeSeconds_def)
  then have "(of_int \<bar>n\<bar> :: rat) \<le> of_int 9007199254740" by simp
  then have n2: "\<bar>n\<bar> \<le> 9007199254740" by (simp only: of_int_le_iff)
  note n = n1 n2
  have "\<bar>n * 1000\<bar> \<le> 2 ^ 53" using n(2) by simp
  from round_double_int[OF this] show ?thesis by (simp add: n(1))
qed

lemma expired_whole:
  assumes "decodeToken t = Some d" "get_exp d = Some (JNum (Fin r))" "timeValue (clock s)"
    "wholeSeconds r"
  shows "isTokenExpired s t = (r \<le> of_int (clock s) / 1000 + 60)"
proof -
  have "0 \<le> clock s" using assms(3) by (simp add: timeValue_def)
  then have "r = 0 \<longrightarrow> r \<le> of_int (clock s) / 1000 + 60" by simp
  then show ?thesis
    by (auto simp: expired_numeric[OF assms(1,2,3)] times1000_whole[OF assms(4)] js_le_def
        field_simps)
qed

lemma sample_clocks:
  "timeValue (clock base)" "timeValue (clock loggedIn)" "timeValue (clock nearBoundary)"
  "timeValue (clock laterClock)" "clock base = 1700000000000" "clock loggedIn = 1700000000000"
  "clock nearBoundary = 1700000000074" "clock laterClock = 2150000000004"
  by (simp_all add: base_def loggedIn_def nearBoundary_def laterClock_def timeValue_def)

lemma whole_samples:
  "wholeSeconds 1893456000" "wholeSeconds 1700000060" "wholeSeconds 1700000061"
  by (simp_all add: wholeSeconds_def)

lemma decodeURI_tokens:
  "decodeURIComponent boundaryToken = Some boundaryToken"
  "decodeURIComponent sampleToken = Some sampleToken"
  unfolding boundaryToken_def sampleToken_def by code_simp+

lemma found_samples:
  "tokenFound cookieHoldsBoundary = Some boundaryToken"
  "tokenFound localHoldsBoundary = Some boundaryToken"
  "tokenFound localHoldsFresh = Some freshToken"
proof -
  have c: "mode cookieHoldsBoundary = CookiesOn" "wf_jar (jar cookieHoldsBoundary)"
    unfolding cookieHoldsBoundary_def boundaryToken_def
    by (simp_all add: base_def wf_jar_def cookie_ok_def)
  have "cookieRead ''auth_token'' cookieHoldsBoundary = Some (Hit boundaryToken)"
    using cookieRead_on[OF c plainKey_auth_token] decodeURI_tokens(1)
    by (simp add: cookieHoldsBoundary_def probe_def)
  then show "tokenFound cookieHoldsBoundary = Some boundaryToken"
    using decodeToken_nonempty[OF decode_boundaryToken]
    by (simp add: tokenFound_def Let_def truthy_def)
  have l: "mode localHoldsBoundary = CookiesOn" "wf_jar (jar localHoldsBoundary)"
    "mode localHoldsFresh = CookiesOn" "wf_jar (jar localHoldsFresh)"
    by (simp_all add: localHoldsBoundary_def localHoldsFresh_def base_def wf_jar_def)
  have "cookieRead ''auth_token'' localHoldsBoundary = Some Miss"
    using cookieRead_on[OF l(1,2) plainKey_auth_token]
    by (simp add: localHoldsBoundary_def base_def probe_def)
  then show "tokenFound localHoldsBoundary = Some boundaryToken"
    using decodeToken_nonempty[OF decode_boundaryToken]
    by (simp add: tokenFound_def Let_def truthy_def localHoldsBoundary_def base_def mirrorKey_def)
  have "cookieRead ''auth_token'' localHoldsFresh = Some Miss"
    using cookieRead_on[OF l(3,4) plainKey_auth_token]
    by (simp add: localHoldsFresh_def base_def probe_def)
  then show "tokenFound localHoldsFresh = Some freshToken"
    using decodeToken_nonempty[OF decode_freshToken]
    by (simp add: tokenFound_def Let_def truthy_def localHoldsFresh_def base_def mirrorKey_def)
qed

lemma held_samples:
  "isBrowser cookieHoldsBoundary \<and> wf_jar (jar cookieHoldsBoundary) \<and>
   timeValue (clock cookieHoldsBoundary) \<and> clock cookieHoldsBoundary = 1700000000000 \<and>
   mode cookieHoldsBoundary = CookiesOn"
  "isBrowser localHoldsBoundary \<and> wf_jar (jar localHoldsBoundary) \<and>
   timeValue (clock localHoldsBoundary) \<and> clock localHoldsBoundary = 1700000000000 \<and>
   mode localHoldsBoundary = CookiesOn"
  "isBrowser localHoldsFresh \<and> wf_jar (jar localHoldsFresh) \<and>
   timeValue (clock localHoldsFresh) \<and> clock localHoldsFresh = 1700000000000"
  unfolding cookieHoldsBoundary_def localHoldsBoundary_def localHoldsFresh_def boundaryToken_def
  by (simp_all add: base_def wf_jar_def cookie_ok_def timeValue_def)

lemma ls_setToken:
  assumes "isBrowser s"
  shows "ls (setToken t s) ''auth_token'' = Some t"
    "ls (setToken t s) (mirrorKey ''auth_token'') = Some t"
proof -
  let ?s2 = "setItem ''auth_token'' t (setCookie ''auth_token'' t 30 s)"
  have c: "setToken t s = ?s2 \<or> (\<exists>x. setToken t s = setItem ''auth_token_expiry'' x ?s2)"
    using assms by (auto simp: setToken_def Let_def split: option.splits)
  have l: "ls ?s2 ''auth_token'' = Some t" "ls ?s2 (mirrorKey ''auth_token'') = Some t"
    using ls_setCookie[OF assms, of "''auth_token''" t 30] mirror_distinct
    by (simp_all add: setItem_def)
  show "ls (setToken t s) ''auth_token'' = Some t"
    using c l(1) by (auto simp: setItem_def)
  show "ls (setToken t s) (mirrorKey ''auth_token'') = Some t"
    using c l(2) expiry_key_distinct(2) by (auto simp: setItem_def)
qed

lemma jar_setToken_illformed:
  assumes "isBrowser s" "\<not> wellFormed t"
  shows "jar (setToken t s) = jar s"
proof -
  let ?s2 = "setItem ''auth_token'' t (setCookie ''auth_token'' t 30 s)"
  have c: "setToken t s = ?s2 \<or> (\<exists>x. setToken t s = setItem ''auth_token_expiry'' x ?s2)"
    using assms by (auto simp: setToken_def Let_def split: option.splits)
  have "jar ?s2 = jar s"
    using setCookie_no_jar[OF assms(1), of t "''auth_token''" 30] assms(2)
    by (simp add: setItem_def)
  then show ?thesis using c by (auto simp: setItem_def)
qed



subsection \<open>A token set over an older cookie, and a fractional expiry\<close>

lemma decode_staleSurrogate:
  "decodeToken staleSurrogate = Some (JObj [(''exp'', JNum (Fin 1700000060))])"
  unfolding staleSurrogate_def by code_simp


lemma illFormed_samples:
  "\<not> wellFormed loneSurrogate" "\<not> wellFormed staleSurrogate" "\<not> wellFormed brokenSurrogate"
  unfolding loneSurrogate_def staleSurrogate_def brokenSurrogate_def
  by (simp_all add: wellFormed_def)

lemma valid_sample_loggedIn: "\<not> isTokenExpired loggedIn sampleToken"
  using expired_whole[OF decode_sampleToken get_exp_single sample_clocks(2) whole_samples(1)]
  by (simp add: sample_clocks(6))

lemma older_cookie_found:
  assumes "\<not> wellFormed t"
  shows "tokenFound (setToken t loggedIn) = Some sampleToken"
    "fst (getToken (setToken t loggedIn)) = Some sampleToken"
    "fst (isAuthenticated (setToken t loggedIn))"
proof -
  let ?s = "setToken t loggedIn"
  have b: "isBrowser loggedIn" "mode loggedIn = CookiesOn" by (simp_all add: loggedIn_def)
  have env: "same_env loggedIn ?s" by (rule same_env_setToken)
  have b': "isBrowser ?s" "mode ?s = CookiesOn" using env b by (simp_all add: same_env_def)
  have j: "jar ?s = jar loggedIn" by (rule jar_setToken_illformed[OF b(1) assms])
  have wf: "wf_jar (jar ?s)" using wf_jar_loggedIn j by simp
  have "probe ''auth_token'' (jar loggedIn) = Hit sampleToken"
    using decodeURI_tokens(2) by (simp add: probe_def loggedIn_def sampleToken_def)
  then have "cookieRead ''auth_token'' ?s = Some (Hit sampleToken)"
    using cookieRead_on[OF b'(2) wf plainKey_auth_token] j by simp
  then show f: "tokenFound ?s = Some sampleToken"
    using decodeToken_nonempty[OF decode_sampleToken]
    by (simp add: tokenFound_def Let_def truthy_def)
  have v: "\<not> isTokenExpired ?s sampleToken"
    using valid_sample_loggedIn isTokenExpired_env[OF env, of sampleToken] by simp
  from getToken_found[OF b'(1)] obtain s2 where
    g: "getToken ?s =
             (if truthy (tokenFound ?s) \<and> isTokenExpired ?s (the (tokenFound ?s))
              then (None, removeToken s2) else (tokenFound ?s, s2))"
    by blast
  show "fst (getToken ?s) = Some sampleToken" using g f v by simp
  show "fst (isAuthenticated ?s)"
    using isAuthenticated_found[OF b'(1)] f v decodeToken_nonempty[OF decode_sampleToken]
    by (simp add: truthy_def)
qed

lemma fraction_after_set:
  "isTokenExpired nearBoundary fractionToken"
  "holds ''auth_token'' fractionToken (setToken fractionToken nearBoundary)"
  "isTokenExpired (setToken fractionToken nearBoundary) fractionToken"
proof -
  have b: "isBrowser nearBoundary" "wf_jar (jar nearBoundary)"
    by (simp_all add: nearBoundary_def base_def wf_jar_def)
  have w: "wellFormed fractionToken" unfolding fractionToken_def by (simp add: wellFormed_def)
  show x: "isTokenExpired nearBoundary fractionToken"
    using times1000_fraction
    by (simp add: expired_numeric[OF decode_fractionToken get_exp_single sample_clocks(3)]
        js_times_def js_le_def sample_clocks(7))
  show "holds ''auth_token'' fractionToken (setToken fractionToken nearBoundary)"
    by (rule holds_setToken[OF b w])
  show "isTokenExpired (setToken fractionToken nearBoundary) fractionToken"
    using x isTokenExpired_env[OF same_env_setToken, of fractionToken nearBoundary fractionToken]
    by simp
qed

section \<open>The claims\<close>

text \<open>
  C10. \<open>removeToken\<close> is idempotent and total: a second call leaves the state of the first
  call as it is; the function returns a state in every environment (without a browser, with
  the cookie store working, switched off, or raising on every access), whether or not the keys
  are present; and in a browser the token, its mirror and the cached expiry are gone from
  \<open>localStorage\<close> afterwards, and the cookie is gone from the cookie store (read through
  \<open>getCookie\<close> or looked up in the jar), the clock not being before the epoch.
\<close>

theorem removeToken_idempotent:
  "removeToken (removeToken s) = removeToken s \<and>
   (isBrowser s \<longrightarrow>
      ls (removeToken s) ''auth_token'' = None \<and>
      ls (removeToken s) ''auth_token_expiry'' = None \<and>
      ls (removeToken s) (mirrorKey ''auth_token'') = None \<and>
      (wf_jar (jar s) \<and> 0 \<le> clock s \<longrightarrow>
         fst (getCookie ''auth_token'' (removeToken s)) = None \<and>
         (mode s = CookiesOn \<longrightarrow> map_of (jar (removeToken s)) ''auth_token'' = None)))"
proof (intro conjI impI)
  show "removeToken (removeToken s) = removeToken s" by (rule removeToken_twice)
next
  assume b: "isBrowser s"
  show "ls (removeToken s) ''auth_token'' = None"
    "ls (removeToken s) ''auth_token_expiry'' = None"
    "ls (removeToken s) (mirrorKey ''auth_token'') = None"
    by (simp_all add: removeToken_browser[OF b] mirrorKey_def)
  assume w: "wf_jar (jar s) \<and> 0 \<le> clock s"
  let ?s = "removeToken s"
  have b': "isBrowser ?s" and m': "mode ?s = mode s"
    using b by (simp_all add: removeToken_browser[OF b])
  have l: "ls ?s ''auth_token'' = None" "ls ?s (mirrorKey ''auth_token'') = None"
    by (simp_all add: removeToken_browser[OF b] mirrorKey_def)
  have j: "mode s = CookiesOn \<Longrightarrow> jar ?s = jar_del ''auth_token'' (jar s)"
    using w by (simp add: removeToken_browser[OF b])
  show "fst (getCookie ''auth_token'' ?s) = None"
  proof (cases "mode s")
    case CookiesOn
    have wf: "wf_jar (jar ?s)" using w j[OF CookiesOn] by (simp add: wf_jar_del)
    have "probe ''auth_token'' (jar ?s) = Miss"
      by (simp add: probe_def j[OF CookiesOn] map_of_jar_del)
    then show ?thesis
      using getCookie_on[OF b' _ wf, of "''auth_token''"] CookiesOn m' l
      by (simp add: truthy_def)
  next
    case CookiesOff
    then show ?thesis using getCookie_off[OF b', of "''auth_token''"] m' l
      by (simp add: truthy_def)
  next
    case CookiesBlocked
    then show ?thesis using getCookie_blocked[OF b', of "''auth_token''"] m' l
      by (simp add: truthy_def or_else_def)
  qed
  assume "mode s = CookiesOn"
  then show "map_of (jar ?s) ''auth_token'' = None"
    by (simp add: j map_of_jar_del)
qed

theorem removeToken_idempotent_witness:
  "isBrowser loggedIn \<and> wf_jar (jar loggedIn) \<and> 0 \<le> clock loggedIn \<and> mode loggedIn = CookiesOn \<and>
   ls loggedIn ''auth_token'' \<noteq> None \<and> map_of (jar loggedIn) ''auth_token'' \<noteq> None \<and>
   removeToken (removeToken loggedIn) = removeToken loggedIn \<and>
   ls (removeToken loggedIn) ''auth_token'' = None \<and>
   ls (removeToken loggedIn) ''auth_token_expiry'' = None \<and>
   ls (removeToken loggedIn) (mirrorKey ''auth_token'') = None \<and>
   fst (getCookie ''auth_token'' (removeToken loggedIn)) = None \<and>
   map_of (jar (removeToken loggedIn)) ''auth_token'' = None"
  using removeToken_idempotent[of loggedIn]
  by (simp add: loggedIn_def wf_jar_def cookie_ok_def)



text \<open>
  C9. With no timezone preference in either backend, \<open>getTimezone\<close> returns what the
  environment reports, or \<open>UTC\<close> when the introspection raises or reports nothing (and
  \<open>UTC\<close> outside a browser), and the state is returned unchanged: nothing is persisted. A
  second call on the resulting state therefore asks the environment again: its answer is the
  one of the environment \<open>e\<close> at that moment.
\<close>

theorem getTimezone_detects:
  "(\<not> isBrowser s \<longrightarrow> getTimezone s = (''UTC'', s)) \<and>
   (isBrowser s \<and> wf_jar (jar s) \<and> unstored ''history_timezone'' s \<longrightarrow>
      getTimezone s =
        (case intl s of IntlThrows \<Rightarrow> ''UTC''
         | IntlZone z \<Rightarrow> if truthy z then the z else ''UTC'', s) \<and>
      fst (getTimezone ((snd (getTimezone s))\<lparr>intl := e\<rparr>)) =
        (case e of IntlThrows \<Rightarrow> ''UTC'' | IntlZone z \<Rightarrow> if truthy z then the z else ''UTC''))"
proof (intro conjI impI)
  assume "\<not> isBrowser s"
  then show "getTimezone s = (''UTC'', s)"
    by (simp add: getTimezone_def getPreference_def detectLocalTimezone_def)
next
  assume a: "isBrowser s \<and> wf_jar (jar s) \<and> unstored ''history_timezone'' s"
  have g: "\<And>s. isBrowser s \<and> wf_jar (jar s) \<and> unstored ''history_timezone'' s \<Longrightarrow>
      getTimezone s =
        (case intl s of IntlThrows \<Rightarrow> ''UTC''
         | IntlZone z \<Rightarrow> if truthy z then the z else ''UTC'', s)"
    using getPreference_unstored[OF _ plainKey_prefs(1)]
    by (simp add: getTimezone_def detectLocalTimezone_def)
  show "getTimezone s =
        (case intl s of IntlThrows \<Rightarrow> ''UTC''
         | IntlZone z \<Rightarrow> if truthy z then the z else ''UTC'', s)"
    using g[OF a] .
  have "isBrowser (s\<lparr>intl := e\<rparr>) \<and> wf_jar (jar (s\<lparr>intl := e\<rparr>)) \<and>
        unstored ''history_timezone'' (s\<lparr>intl := e\<rparr>)"
    using a by (simp add: unstored_def)
  from g[OF this]
  show "fst (getTimezone ((snd (getTimezone s))\<lparr>intl := e\<rparr>)) =
        (case e of IntlThrows \<Rightarrow> ''UTC'' | IntlZone z \<Rightarrow> if truthy z then the z else ''UTC'')"
    by (simp add: g[OF a])
qed

theorem getTimezone_detects_witness:
  "isBrowser loggedIn \<and> wf_jar (jar loggedIn) \<and> unstored ''history_timezone'' loggedIn \<and>
   \<not> isBrowser (loggedIn\<lparr>isBrowser := False\<rparr>) \<and>
   getTimezone (loggedIn\<lparr>isBrowser := False\<rparr>) = (''UTC'', loggedIn\<lparr>isBrowser := False\<rparr>) \<and>
   getTimezone loggedIn = (''Europe/Berlin'', loggedIn) \<and>
   fst (getTimezone ((snd (getTimezone loggedIn))\<lparr>intl := IntlThrows\<rparr>)) = ''UTC'' \<and>
   fst (getTimezone ((snd (getTimezone loggedIn))\<lparr>intl := IntlZone None\<rparr>)) = ''UTC'' \<and>
   fst (getTimezone ((snd (getTimezone loggedIn))\<lparr>intl := IntlZone (Some ''Asia/Tokyo'')\<rparr>)) = ''Asia/Tokyo''"
proof -
  have b: "isBrowser loggedIn" "intl loggedIn = IntlZone (Some ''Europe/Berlin'')"
    by (simp_all add: loggedIn_def)
  have u: "unstored ''history_timezone'' loggedIn"
    by (simp add: unstored_def loggedIn_def mirrorKey_def)
  show ?thesis
    using b u wf_jar_loggedIn
      getTimezone_detects[of "loggedIn\<lparr>isBrowser := False\<rparr>" IntlThrows]
      getTimezone_detects[of loggedIn IntlThrows]
      getTimezone_detects[of loggedIn "IntlZone None"]
      getTimezone_detects[of loggedIn "IntlZone (Some ''Asia/Tokyo'')"]
    by (auto simp: truthy_def)
qed

text \<open>
  C6, as amended. The four read paths of a get, for a key that is a plain identifier.
  A value found in the cookie store is returned and written to the local-only mirror.
  With no cookie of that name (or the cookie store switched off), a non-empty mirror value is
  returned and handed to \<open>setCookie\<close>, which rewrites the mirror and, where the cookie store
  works and the value can be encoded, the cookie; where it cannot (the store drops the write,
  or the encoding raises), the jar stays as it was and the value is returned all the same.
  A value found only under the unprefixed local key is returned without any write, and so is
  the value found through the fallback after a cookie read that raised or could not be decoded.
\<close>

theorem getCookie_read_paths:
  assumes "isBrowser s" "wf_jar (jar s)" "plainKey key"
  shows "(cookieRead key s = Some (Hit v) \<longrightarrow>
            getCookie key s = (Some v, setItem (mirrorKey key) v s)) \<and>
         (cookieRead key s = Some Miss \<and> ls s (mirrorKey key) = Some v \<and> v \<noteq> [] \<longrightarrow>
            getCookie key s = (Some v, setCookie key v 30 s) \<and>
            ls (setCookie key v 30 s) = (ls s)(mirrorKey key \<mapsto> v) \<and>
            (mode s = CookiesOn \<and> wellFormed v \<longrightarrow>
               cookieRead key (setCookie key v 30 s) = Some (Hit v)) \<and>
            (mode s \<noteq> CookiesOn \<or> \<not> wellFormed v \<longrightarrow> jar (setCookie key v 30 s) = jar s)) \<and>
         (cookieRead key s = Some Miss \<and> \<not> truthy (ls s (mirrorKey key)) \<longrightarrow>
            getCookie key s = (ls s key, s)) \<and>
         (cookieRead key s = None \<or> cookieRead key s = Some Malformed \<longrightarrow>
            getCookie key s = (or_else (ls s (mirrorKey key)) (ls s key), s))"
proof -
  note ne = plainKey_no_eq[OF assms(3)]
  have unfold: "getCookie key s =
     (case cookieRead key s of
        None \<Rightarrow> (or_else (ls s (mirrorKey key)) (ls s key), s)
      | Some Malformed \<Rightarrow> (or_else (ls s (mirrorKey key)) (ls s key), s)
      | Some (Hit v) \<Rightarrow> (Some v, setItem (mirrorKey key) v s)
      | Some Miss \<Rightarrow>
          (if truthy (ls s (mirrorKey key))
           then (ls s (mirrorKey key), setCookie key (the (ls s (mirrorKey key))) 30 s)
           else (ls s key, s)))"
    using assms(1)
    by (simp add: getCookie_def cookieRead_def Let_def split: option.splits scan.splits)
  have hit: "cookieRead key s = Some (Hit v) \<longrightarrow>
            getCookie key s = (Some v, setItem (mirrorKey key) v s)"
    by (simp add: unfold)
  have legacy: "cookieRead key s = Some Miss \<and> \<not> truthy (ls s (mirrorKey key)) \<longrightarrow>
            getCookie key s = (ls s key, s)"
    by (simp add: unfold)
  have caught: "cookieRead key s = None \<or> cookieRead key s = Some Malformed \<longrightarrow>
            getCookie key s = (or_else (ls s (mirrorKey key)) (ls s key), s)"
    by (auto simp: unfold)
  have mirror: "cookieRead key s = Some Miss \<and> ls s (mirrorKey key) = Some v \<and> v \<noteq> [] \<longrightarrow>
            getCookie key s = (Some v, setCookie key v 30 s) \<and>
            ls (setCookie key v 30 s) = (ls s)(mirrorKey key \<mapsto> v) \<and>
            (mode s = CookiesOn \<and> wellFormed v \<longrightarrow>
               cookieRead key (setCookie key v 30 s) = Some (Hit v)) \<and>
            (mode s \<noteq> CookiesOn \<or> \<not> wellFormed v \<longrightarrow> jar (setCookie key v 30 s) = jar s)"
  proof (intro impI conjI)
    assume a: "cookieRead key s = Some Miss \<and> ls s (mirrorKey key) = Some v \<and> v \<noteq> []"
    then show "getCookie key s = (Some v, setCookie key v 30 s)"
      by (simp add: unfold truthy_def)
    show "ls (setCookie key v 30 s) = (ls s)(mirrorKey key \<mapsto> v)"
      by (rule ls_setCookie[OF assms(1)])
    {
      assume on: "mode s = CookiesOn \<and> wellFormed v"
      let ?s = "setCookie key v 30 s"
      have sc: "?s = s\<lparr>jar := jar_put key (escape_all v) (jar s), ls := (ls s)(mirrorKey key \<mapsto> v)\<rparr>"
        using setCookie_on[OF assms(1) _ assms(3), of v 30] on by simp
      have "wf_jar (jar ?s)"
        using wf_jar_put[OF assms(2) cookie_ok_escaped[OF assms(3), of v]] by (simp add: sc)
      then have "cookieRead key ?s = Some (probe key (jar ?s))"
        using cookieRead_on[of ?s key] assms(3) on by (simp add: sc)
      then show "cookieRead key ?s = Some (Hit v)"
        using on by (simp add: sc probe_put)
    }
    {
      assume "mode s \<noteq> CookiesOn \<or> \<not> wellFormed v"
      from setCookie_no_jar[OF assms(1) this, of key 30]
      show "jar (setCookie key v 30 s) = jar s" by (simp add: setItem_def)
    }
  qed
  show ?thesis using hit mirror legacy caught by blast
qed

theorem getCookie_read_paths_witness:
  "isBrowser cookieOnly \<and> wf_jar (jar cookieOnly) \<and> plainKey ''network_unit'' \<and>
   cookieRead ''network_unit'' cookieOnly = Some (Hit ''Mbps'') \<and>
   getCookie ''network_unit'' cookieOnly =
     (Some ''Mbps'', setItem (mirrorKey ''network_unit'') ''Mbps'' cookieOnly) \<and>
   isBrowser mirrorOnly \<and> wf_jar (jar mirrorOnly) \<and>
   cookieRead ''network_unit'' mirrorOnly = Some Miss \<and>
   ls mirrorOnly (mirrorKey ''network_unit'') = Some ''Mbps'' \<and> ''Mbps'' \<noteq> [] \<and>
   mode mirrorOnly = CookiesOn \<and> wellFormed ''Mbps'' \<and>
   getCookie ''network_unit'' mirrorOnly = (Some ''Mbps'', setCookie ''network_unit'' ''Mbps'' 30 mirrorOnly) \<and>
   cookieRead ''network_unit'' (setCookie ''network_unit'' ''Mbps'' 30 mirrorOnly) = Some (Hit ''Mbps'') \<and>
   isBrowser cookiesOffMirror \<and> wf_jar (jar cookiesOffMirror) \<and>
   cookieRead ''network_unit'' cookiesOffMirror = Some Miss \<and>
   ls cookiesOffMirror (mirrorKey ''network_unit'') = Some ''Mbps'' \<and>
   mode cookiesOffMirror \<noteq> CookiesOn \<and>
   getCookie ''network_unit'' cookiesOffMirror =
     (Some ''Mbps'', setCookie ''network_unit'' ''Mbps'' 30 cookiesOffMirror) \<and>
   jar (setCookie ''network_unit'' ''Mbps'' 30 cookiesOffMirror) = jar cookiesOffMirror \<and>
   isBrowser legacyOnly \<and> wf_jar (jar legacyOnly) \<and>
   cookieRead ''network_unit'' legacyOnly = Some Miss \<and>
   \<not> truthy (ls legacyOnly (mirrorKey ''network_unit'')) \<and>
   getCookie ''network_unit'' legacyOnly = (Some ''Mbps'', legacyOnly) \<and>
   isBrowser blockedMirror \<and> wf_jar (jar blockedMirror) \<and>
   cookieRead ''network_unit'' blockedMirror = None \<and>
   getCookie ''network_unit'' blockedMirror = (Some ''Mbps'', blockedMirror)"
  using sample_states sample_reads sample_stores plainKey_prefs(2) wellFormed_samples(3)
    getCookie_read_paths[of cookieOnly "''network_unit''" "''Mbps''"]
    getCookie_read_paths[of mirrorOnly "''network_unit''" "''Mbps''"]
    getCookie_read_paths[of cookiesOffMirror "''network_unit''" "''Mbps''"]
    getCookie_read_paths[of legacyOnly "''network_unit''" "''Mbps''"]
    getCookie_read_paths[of blockedMirror "''network_unit''" "''Mbps''"]
  by (simp add: truthy_def or_else_def)

theorem getCookie_legacy_counterexample:
  "isBrowser legacyOnly \<and> mode legacyOnly = CookiesOn \<and>
   ls legacyOnly ''network_unit'' = Some ''Mbps'' \<and>
   getCookie ''network_unit'' legacyOnly = (Some ''Mbps'', legacyOnly) \<and>
   cookieRead ''network_unit'' (snd (getCookie ''network_unit'' legacyOnly)) = Some Miss \<and>
   ls (snd (getCookie ''network_unit'' legacyOnly)) (mirrorKey ''network_unit'') = None"
proof -
  have "probe ''network_unit'' (jar legacyOnly) = Miss"
    by (simp add: legacyOnly_def base_def probe_def)
  then have g: "getCookie ''network_unit'' legacyOnly = (Some ''Mbps'', legacyOnly)"
    using getCookie_on[of legacyOnly "''network_unit''"] sample_states(3) sample_stores(4,5)
      plainKey_no_eq[OF plainKey_prefs(2)]
    by (simp add: truthy_def)
  show ?thesis
    using sample_states(3) sample_stores(4,5) sample_reads(3) by (simp add: g)
qed

text \<open>
  C7. The answers of \<open>getToken\<close> and of \<open>isAuthenticated\<close> do not depend on the cached
  expiry entry: replacing or removing the value under \<open>auth_token_expiry\<close> in any state
  changes neither result.
\<close>

theorem expiry_cache_irrelevant:
  "fst (getToken (cacheSet x s)) = fst (getToken s) \<and>
   fst (isAuthenticated (cacheSet x s)) = fst (isAuthenticated s)"
proof -
  obtain y where y: "snd (getToken (cacheSet x s)) = cacheSet y (snd (getToken s))"
    and f: "fst (getToken (cacheSet x s)) = fst (getToken s)"
    using getToken_cache[of x s] by blast
  have "fst (isAuthenticated (cacheSet x s)) = fst (isAuthenticated s)"
    using y f
    by (simp add: isAuthenticated_def cache_fields isTokenExpired_cache split_beta Let_def)
  then show ?thesis using f by simp
qed

text \<open>
  C1, as amended. For a token whose decoded claims carry a finite numeric \<open>exp\<close> (the double
  that \<open>JSON.parse\<close> delivers), the clock being a time value: an \<open>exp\<close> at or within the
  buffer, \<open>exp \<le> now + 60 s\<close>, is treated as expired; for an \<open>exp\<close> that is a whole number of
  seconds (of magnitude at most \<open>9007199254740\<close>, so that its thousandfold is exact) the
  credential is valid exactly when \<open>now + 60 s < exp\<close>; and in a browser, for a well-formed
  token string, \<open>isAuthenticated\<close> right after \<open>setToken\<close> answers true exactly when the
  token is valid.
\<close>

theorem expiry_rule:
  assumes "decodeToken t = Some d" "get_exp d = Some (JNum (Fin r))" "timeValue (clock s)"
  shows "(r \<le> of_int (clock s) / 1000 + 60 \<longrightarrow> isTokenExpired s t) \<and>
         (wholeSeconds r \<longrightarrow> (\<not> isTokenExpired s t \<longleftrightarrow> of_int (clock s) / 1000 + 60 < r)) \<and>
         (isBrowser s \<and> wf_jar (jar s) \<and> wellFormed t \<longrightarrow>
            fst (isAuthenticated (setToken t s)) = (\<not> isTokenExpired s t))"
proof (intro conjI impI)
  assume "r \<le> of_int (clock s) / 1000 + 60"
  then show "isTokenExpired s t" by (rule expired_within_buffer[OF assms])
next
  assume "wholeSeconds r"
  from expired_whole[OF assms this]
  show "(\<not> isTokenExpired s t) = (of_int (clock s) / 1000 + 60 < r)" by auto
next
  assume h: "isBrowser s \<and> wf_jar (jar s) \<and> wellFormed t"
  then have "holds ''auth_token'' t (setToken t s)" using holds_setToken by simp
  from isAuthenticated_holds[OF this]
  show "fst (isAuthenticated (setToken t s)) = (\<not> isTokenExpired s t)"
    using isTokenExpired_env[OF same_env_setToken, of t s t] decodeToken_nonempty[OF assms(1)]
    by simp
qed

theorem expiry_rule_witness:
  "decodeToken sampleToken = Some (JObj [(''exp'', JNum (Fin 1893456000))]) \<and>
   decodeToken boundaryToken = Some (JObj [(''exp'', JNum (Fin 1700000060))]) \<and>
   get_exp (JObj [(''exp'', JNum (Fin 1893456000))]) = Some (JNum (Fin 1893456000)) \<and>
   get_exp (JObj [(''exp'', JNum (Fin 1700000060))]) = Some (JNum (Fin 1700000060)) \<and>
   timeValue (clock base) \<and> isBrowser base \<and> wf_jar (jar base) \<and>
   wellFormed sampleToken \<and> wellFormed boundaryToken \<and>
   wholeSeconds 1893456000 \<and> wholeSeconds 1700000060 \<and>
   (1700000060 :: rat) \<le> of_int (clock base) / 1000 + 60 \<and>
   of_int (clock base) / 1000 + 60 < (1893456000 :: rat) \<and>
   \<not> isTokenExpired base sampleToken \<and> isTokenExpired base boundaryToken \<and>
   fst (isAuthenticated (setToken sampleToken base)) \<and>
   \<not> fst (isAuthenticated (setToken boundaryToken base))"
  using expiry_rule[OF decode_sampleToken get_exp_single sample_clocks(1)]
    expiry_rule[OF decode_boundaryToken get_exp_single sample_clocks(1)]
    decode_sampleToken decode_boundaryToken base_facts wellFormed_tokens(1,2)
    sample_clocks(1,5) whole_samples
  by (auto simp: get_exp_single)

theorem fractional_exp_counterexample:
  "decodeToken fractionToken = Some (JObj [(''exp'', JNum (Fin (7130317051968619 / 4194304)))]) \<and>
   of_int (clock nearBoundary) / 1000 + 60 < (7130317051968619 / 4194304 :: rat) \<and>
   of_int (clock nearBoundary) / 1000 + 60 < (17000000600740001 / 10000000 :: rat) \<and>
   isBrowser nearBoundary \<and> isTokenExpired nearBoundary fractionToken \<and>
   \<not> fst (isAuthenticated (setToken fractionToken nearBoundary)) \<and>
   decodeToken staleSurrogate = Some (JObj [(''exp'', JNum (Fin 1700000060))]) \<and>
   (1700000060 :: rat) \<le> of_int (clock loggedIn) / 1000 + 60 \<and>
   isBrowser loggedIn \<and> isTokenExpired loggedIn staleSurrogate \<and>
   fst (isAuthenticated (setToken staleSurrogate loggedIn))"
proof -
  have b: "isBrowser nearBoundary" "isBrowser loggedIn"
    by (simp_all add: nearBoundary_def base_def loggedIn_def)
  have "\<not> fst (isAuthenticated (setToken fractionToken nearBoundary))"
    using isAuthenticated_holds[OF fraction_after_set(2)] fraction_after_set(3) by simp
  moreover have "isTokenExpired loggedIn staleSurrogate"
    using expired_whole[OF decode_staleSurrogate get_exp_single sample_clocks(2) whole_samples(2)]
    by (simp add: sample_clocks(6))
  ultimately show ?thesis
    using decode_fractionToken decode_staleSurrogate b fraction_after_set(1)
      older_cookie_found(3)[OF illFormed_samples(2)]
    by (simp add: sample_clocks(6,7))
qed

text \<open>
  C2, as amended. Whatever store the token is found in (cookie, mirror or unprefixed local
  key), in a browser with the clock a time value: if its decoded \<open>exp\<close> (the double that
  \<open>JSON.parse\<close> delivers) is at or before \<open>now + 60 s\<close>, \<open>getToken\<close> returns absent and ends in
  a state produced by \<open>removeToken\<close>: the token, its mirror and the cached expiry are gone from
  \<open>localStorage\<close>, a working cookie store holds no token cookie, and the next \<open>getToken\<close>
  returns absent again. A token that the validity check accepts, in particular one whose
  \<open>exp\<close> is a whole number of seconds more than 60 s ahead, is returned as it is stored.
\<close>

theorem getToken_expired_clears:
  assumes "isBrowser s" "wf_jar (jar s)" "timeValue (clock s)" "tokenFound s = Some t"
    "decodeToken t = Some d" "get_exp d = Some (JNum (Fin r))"
  shows "(r \<le> of_int (clock s) / 1000 + 60 \<longrightarrow>
            fst (getToken s) = None \<and>
            (\<exists>u. snd (getToken s) = removeToken u) \<and>
            ls (snd (getToken s)) ''auth_token'' = None \<and>
            ls (snd (getToken s)) (mirrorKey ''auth_token'') = None \<and>
            ls (snd (getToken s)) ''auth_token_expiry'' = None \<and>
            (mode s = CookiesOn \<longrightarrow> cookieRead ''auth_token'' (snd (getToken s)) = Some Miss) \<and>
            fst (getToken (snd (getToken s))) = None) \<and>
         (\<not> isTokenExpired s t \<longrightarrow> fst (getToken s) = Some t) \<and>
         (wholeSeconds r \<and> of_int (clock s) / 1000 + 60 < r \<longrightarrow> fst (getToken s) = Some t)"
proof -
  from getToken_found[OF assms(1)] obtain s2 where env: "same_env s s2"
    and wf: "wf_jar (jar s2)"
    and g: "getToken s =
             (if truthy (tokenFound s) \<and> isTokenExpired s (the (tokenFound s))
              then (None, removeToken s2) else (tokenFound s, s2))"
    using assms(2) by blast
  have tr: "truthy (tokenFound s)"
    using assms(4) decodeToken_nonempty[OF assms(5)] by (simp add: truthy_def)
  have g': "getToken s = (if isTokenExpired s t then (None, removeToken s2) else (Some t, s2))"
    using g tr assms(4) by simp
  have b: "isBrowser s2" and ck: "0 \<le> clock s2" and md: "mode s2 = mode s"
    using env assms(1,3) by (simp_all add: same_env_def timeValue_def)
  let ?r = "removeToken s2"
  have u: "unstored ''auth_token'' ?r" by (rule unstored_removeToken[OF b ck])
  have rb: "ls ?r ''auth_token_expiry'' = None" "mode ?r = mode s" "wf_jar (jar ?r)"
    using md wf ck by (simp_all add: removeToken_browser[OF b] wf_jar_del)
  have again: "fst (getToken ?r) = None" by (simp add: getToken_removed[OF b wf ck])
  have rd: "mode s = CookiesOn \<longrightarrow> cookieRead ''auth_token'' ?r = Some Miss"
    using cookieRead_unstored[OF _ rb(3) plainKey_auth_token u] rb(2) by simp
  have expired: "r \<le> of_int (clock s) / 1000 + 60 \<longrightarrow>
            fst (getToken s) = None \<and>
            (\<exists>u. snd (getToken s) = removeToken u) \<and>
            ls (snd (getToken s)) ''auth_token'' = None \<and>
            ls (snd (getToken s)) (mirrorKey ''auth_token'') = None \<and>
            ls (snd (getToken s)) ''auth_token_expiry'' = None \<and>
            (mode s = CookiesOn \<longrightarrow> cookieRead ''auth_token'' (snd (getToken s)) = Some Miss) \<and>
            fst (getToken (snd (getToken s))) = None"
  proof
    assume "r \<le> of_int (clock s) / 1000 + 60"
    then have "isTokenExpired s t" by (rule expired_within_buffer[OF assms(5,6,3)])
    then have "getToken s = (None, ?r)" using g' by simp
    then show "fst (getToken s) = None \<and>
            (\<exists>u. snd (getToken s) = removeToken u) \<and>
            ls (snd (getToken s)) ''auth_token'' = None \<and>
            ls (snd (getToken s)) (mirrorKey ''auth_token'') = None \<and>
            ls (snd (getToken s)) ''auth_token_expiry'' = None \<and>
            (mode s = CookiesOn \<longrightarrow> cookieRead ''auth_token'' (snd (getToken s)) = Some Miss) \<and>
            fst (getToken (snd (getToken s))) = None"
      using u rb(1) again rd by (auto simp: unstored_def)
  qed
  have valid: "\<not> isTokenExpired s t \<longrightarrow> fst (getToken s) = Some t" using g' by simp
  have whole: "wholeSeconds r \<and> of_int (clock s) / 1000 + 60 < r \<longrightarrow> fst (getToken s) = Some t"
    using expired_whole[OF assms(5,6,3)] g' by auto
  show ?thesis using expired valid whole by blast
qed

theorem getToken_expired_clears_witness:
  "isBrowser cookieHoldsBoundary \<and> wf_jar (jar cookieHoldsBoundary) \<and>
   timeValue (clock cookieHoldsBoundary) \<and> mode cookieHoldsBoundary = CookiesOn \<and>
   tokenFound cookieHoldsBoundary = Some boundaryToken \<and>
   decodeToken boundaryToken = Some (JObj [(''exp'', JNum (Fin 1700000060))]) \<and>
   get_exp (JObj [(''exp'', JNum (Fin 1700000060))]) = Some (JNum (Fin 1700000060)) \<and>
   (1700000060 :: rat) \<le> of_int (clock cookieHoldsBoundary) / 1000 + 60 \<and>
   fst (getToken cookieHoldsBoundary) = None \<and>
   ls (snd (getToken cookieHoldsBoundary)) ''auth_token'' = None \<and>
   ls (snd (getToken cookieHoldsBoundary)) (mirrorKey ''auth_token'') = None \<and>
   ls (snd (getToken cookieHoldsBoundary)) ''auth_token_expiry'' = None \<and>
   cookieRead ''auth_token'' (snd (getToken cookieHoldsBoundary)) = Some Miss \<and>
   fst (getToken (snd (getToken cookieHoldsBoundary))) = None \<and>
   isBrowser localHoldsBoundary \<and> wf_jar (jar localHoldsBoundary) \<and>
   timeValue (clock localHoldsBoundary) \<and>
   tokenFound localHoldsBoundary = Some boundaryToken \<and>
   fst (getToken localHoldsBoundary) = None \<and>
   ls (snd (getToken localHoldsBoundary)) ''auth_token'' = None \<and>
   fst (getToken (snd (getToken localHoldsBoundary))) = None \<and>
   isBrowser localHoldsFresh \<and> wf_jar (jar localHoldsFresh) \<and> timeValue (clock localHoldsFresh) \<and>
   tokenFound localHoldsFresh = Some freshToken \<and>
   decodeToken freshToken = Some (JObj [(''exp'', JNum (Fin 1700000061))]) \<and>
   wholeSeconds 1700000061 \<and> of_int (clock localHoldsFresh) / 1000 + 60 < (1700000061 :: rat) \<and>
   \<not> isTokenExpired localHoldsFresh freshToken \<and>
   fst (getToken localHoldsFresh) = Some freshToken"
proof -
  note c = held_samples(1)[THEN conjunct1] held_samples(1)[THEN conjunct2, THEN conjunct1]
    held_samples(1)[THEN conjunct2, THEN conjunct2, THEN conjunct1]
  note l = held_samples(2)[THEN conjunct1] held_samples(2)[THEN conjunct2, THEN conjunct1]
    held_samples(2)[THEN conjunct2, THEN conjunct2, THEN conjunct1]
  note f = held_samples(3)[THEN conjunct1] held_samples(3)[THEN conjunct2, THEN conjunct1]
    held_samples(3)[THEN conjunct2, THEN conjunct2, THEN conjunct1]
  have v: "\<not> isTokenExpired localHoldsFresh freshToken"
    using expired_whole[OF decode_freshToken get_exp_single f(3) whole_samples(3)] held_samples(3)
    by simp
  show ?thesis
    using getToken_expired_clears[OF c found_samples(1) decode_boundaryToken get_exp_single]
      getToken_expired_clears[OF l found_samples(2) decode_boundaryToken get_exp_single]
      getToken_expired_clears[OF f found_samples(3) decode_freshToken get_exp_single]
      held_samples found_samples decode_boundaryToken decode_freshToken whole_samples(3) v
    by (auto simp: get_exp_single)
qed

theorem written_boundary_counterexample:
  "decodeToken writtenAtBoundary =
     Some (JObj [(''exp'', JNum (Fin (4508876925837509 / 2097152)))]) \<and>
   (2150000060004 / 1000 :: rat) \<le> of_int (clock laterClock) / 1000 + 60 \<and>
   isBrowser laterClock \<and>
   fst (getToken (setToken writtenAtBoundary laterClock)) = Some writtenAtBoundary \<and>
   decodeToken fractionToken = Some (JObj [(''exp'', JNum (Fin (7130317051968619 / 4194304)))]) \<and>
   of_int (clock nearBoundary) / 1000 + 60 < (7130317051968619 / 4194304 :: rat) \<and>
   of_int (clock nearBoundary) / 1000 + 60 < (17000000600740001 / 10000000 :: rat) \<and>
   isBrowser nearBoundary \<and>
   fst (getToken (setToken fractionToken nearBoundary)) = None"
proof -
  have b: "isBrowser laterClock" "wf_jar (jar laterClock)" "isBrowser nearBoundary"
    by (simp_all add: laterClock_def nearBoundary_def base_def wf_jar_def)
  have w: "wellFormed writtenAtBoundary" unfolding writtenAtBoundary_def by (simp add: wellFormed_def)
  have x: "\<not> isTokenExpired laterClock writtenAtBoundary"
    using times1000_written
    by (simp add: expired_numeric[OF decode_writtenAtBoundary get_exp_single sample_clocks(4)]
        js_times_def js_le_def sample_clocks(8))
  have h: "holds ''auth_token'' writtenAtBoundary (setToken writtenAtBoundary laterClock)"
    by (rule holds_setToken[OF b(1,2) w])
  have "fst (getToken (setToken writtenAtBoundary laterClock)) = Some writtenAtBoundary"
    using getToken_holds[OF h] x
      isTokenExpired_env[OF same_env_setToken, of writtenAtBoundary laterClock writtenAtBoundary]
    by simp
  moreover have "fst (getToken (setToken fractionToken nearBoundary)) = None"
    using getToken_holds[OF fraction_after_set(2)] fraction_after_set(3)
      decodeToken_nonempty[OF decode_fractionToken]
    by simp
  ultimately show ?thesis
    using decode_writtenAtBoundary decode_fractionToken b(1,3) by (simp add: sample_clocks(7,8))
qed

text \<open>
  C4, as amended. Round trip: for a well-formed token string that the validity check accepts,
  in particular one whose claims decode with an \<open>exp\<close> that is a whole number of seconds more
  than 60 s ahead (the clock being a time value), \<open>setToken\<close> followed by \<open>getToken\<close> returns
  exactly that token, and the get leaves the state as \<open>setToken\<close> left it, with the token in
  the mirror, under the unprefixed key and, where the cookie store works, in the cookie. This
  holds whether the cookie store works, is switched off or raises, and whatever was stored
  before.
\<close>

theorem token_round_trip:
  assumes "isBrowser s" "wf_jar (jar s)" "wellFormed t"
  shows "(\<not> isTokenExpired s t \<longrightarrow>
            getToken (setToken t s) = (Some t, setToken t s) \<and>
            ls (setToken t s) ''auth_token'' = Some t \<and>
            ls (setToken t s) (mirrorKey ''auth_token'') = Some t \<and>
            (mode s = CookiesOn \<longrightarrow> cookieRead ''auth_token'' (setToken t s) = Some (Hit t))) \<and>
         (decodeToken t = Some d \<and> get_exp d = Some (JNum (Fin r)) \<and> wholeSeconds r \<and>
          timeValue (clock s) \<and> of_int (clock s) / 1000 + 60 < r \<longrightarrow>
            getToken (setToken t s) = (Some t, setToken t s))"
proof -
  let ?s = "setToken t s"
  have h: "holds ''auth_token'' t ?s" by (rule holds_setToken[OF assms(1,2,3)])
  have env: "same_env s ?s" by (rule same_env_setToken)
  have md: "mode ?s = mode s" using env by (simp add: same_env_def)
  have rd: "mode s = CookiesOn \<longrightarrow> cookieRead ''auth_token'' ?s = Some (Hit t)"
    using cookieRead_holds[OF _ plainKey_auth_token h] md by simp
  have g: "\<not> isTokenExpired s t \<longrightarrow> getToken ?s = (Some t, ?s)"
    using getToken_holds[OF h] isTokenExpired_env[OF env, of t] by simp
  have w: "decodeToken t = Some d \<and> get_exp d = Some (JNum (Fin r)) \<and> wholeSeconds r \<and>
          timeValue (clock s) \<and> of_int (clock s) / 1000 + 60 < r \<longrightarrow> \<not> isTokenExpired s t"
    using expired_whole[of t d r s] by auto
  show ?thesis using g w h rd by (auto simp: holds_def)
qed

theorem token_round_trip_witness:
  "isBrowser loggedIn \<and> wf_jar (jar loggedIn) \<and> wellFormed sampleToken \<and>
   decodeToken sampleToken = Some (JObj [(''exp'', JNum (Fin 1893456000))]) \<and>
   get_exp (JObj [(''exp'', JNum (Fin 1893456000))]) = Some (JNum (Fin 1893456000)) \<and>
   wholeSeconds 1893456000 \<and> timeValue (clock loggedIn) \<and>
   of_int (clock loggedIn) / 1000 + 60 < (1893456000 :: rat) \<and>
   \<not> isTokenExpired loggedIn sampleToken \<and> mode loggedIn = CookiesOn \<and>
   getToken (setToken sampleToken loggedIn) = (Some sampleToken, setToken sampleToken loggedIn) \<and>
   ls (setToken sampleToken loggedIn) ''auth_token'' = Some sampleToken \<and>
   ls (setToken sampleToken loggedIn) (mirrorKey ''auth_token'') = Some sampleToken \<and>
   cookieRead ''auth_token'' (setToken sampleToken loggedIn) = Some (Hit sampleToken) \<and>
   isBrowser blockedMirror \<and> wf_jar (jar blockedMirror) \<and> \<not> isTokenExpired blockedMirror sampleToken \<and>
   getToken (setToken sampleToken blockedMirror) = (Some sampleToken, setToken sampleToken blockedMirror)"
proof -
  have c: "isBrowser loggedIn" "mode loggedIn = CookiesOn" by (simp_all add: loggedIn_def)
  have k: "timeValue (clock blockedMirror)" "clock blockedMirror = 1700000000000"
    by (simp_all add: blockedMirror_def mirrorOnly_def base_def timeValue_def)
  have v: "\<not> isTokenExpired loggedIn sampleToken" "\<not> isTokenExpired blockedMirror sampleToken"
    using expired_whole[OF decode_sampleToken get_exp_single sample_clocks(2) whole_samples(1)]
      expired_whole[OF decode_sampleToken get_exp_single k(1) whole_samples(1)]
    by (simp_all add: sample_clocks(6) k(2))
  show ?thesis
    using token_round_trip[OF c(1) wf_jar_loggedIn wellFormed_tokens(1),
        of "JObj [(''exp'', JNum (Fin 1893456000))]" 1893456000]
      token_round_trip[of blockedMirror sampleToken "JObj [(''exp'', JNum (Fin 1893456000))]" 1893456000]
      c v wf_jar_loggedIn wellFormed_tokens(1) decode_sampleToken sample_states(5)
      sample_clocks(2,6) whole_samples(1)
    by (auto simp: get_exp_single)
qed

theorem lone_surrogate_counterexample:
  "decodeToken loneSurrogate = Some (JObj [(''exp'', JNum (Fin 1893456000))]) \<and>
   of_int (clock loggedIn) / 1000 + 60 < (1893456000 :: rat) \<and>
   \<not> isTokenExpired loggedIn loneSurrogate \<and> isBrowser loggedIn \<and>
   ls (setToken loneSurrogate loggedIn) ''auth_token'' = Some loneSurrogate \<and>
   fst (getToken (setToken loneSurrogate loggedIn)) = Some sampleToken \<and>
   sampleToken \<noteq> loneSurrogate \<and>
   decodeToken fractionToken = Some (JObj [(''exp'', JNum (Fin (7130317051968619 / 4194304)))]) \<and>
   of_int (clock nearBoundary) / 1000 + 60 < (7130317051968619 / 4194304 :: rat) \<and>
   isBrowser nearBoundary \<and>
   fst (getToken (setToken fractionToken nearBoundary)) \<noteq> Some fractionToken"
proof -
  have b: "isBrowser loggedIn" "isBrowser nearBoundary"
    by (simp_all add: loggedIn_def nearBoundary_def base_def)
  have v: "\<not> isTokenExpired loggedIn loneSurrogate"
    using expired_whole[OF decode_loneSurrogate get_exp_single sample_clocks(2) whole_samples(1)]
    by (simp add: sample_clocks(6))
  have n: "sampleToken \<noteq> loneSurrogate" by (simp add: sampleToken_def loneSurrogate_def)
  have "fst (getToken (setToken fractionToken nearBoundary)) = None"
    using getToken_holds[OF fraction_after_set(2)] fraction_after_set(3)
      decodeToken_nonempty[OF decode_fractionToken]
    by simp
  then show ?thesis
    using decode_loneSurrogate decode_fractionToken v b n ls_setToken(1)[OF b(1), of loneSurrogate]
      older_cookie_found(2)[OF illFormed_samples(1)]
    by (simp add: sample_clocks(6,7))
qed




text \<open>
  C5, as amended. In a browser whose cookie store works, for a key that is a plain
  identifier: if the cookie store holds \<open>v\<close> under the key, a get returns \<open>v\<close> and writes it
  to the local-only mirror, and a later read of either backend sees \<open>v\<close>. If the cookie store
  holds nothing under the key and the mirror holds a non-empty \<open>v\<close>, a get returns \<open>v\<close>; when
  \<open>v\<close> is well-formed the get writes it back to the cookie store, so that a later read of
  either backend sees \<open>v\<close>, and when it is not (it cannot be encoded) the cookie store stays
  as it was. An empty string in the mirror counts as absent: the get returns what the
  unprefixed key holds and writes nothing.
\<close>

theorem getCookie_repairs:
  assumes "isBrowser s" "mode s = CookiesOn" "wf_jar (jar s)" "plainKey key"
  shows "(cookieRead key s = Some (Hit v) \<longrightarrow>
            fst (getCookie key s) = Some v \<and>
            ls (snd (getCookie key s)) (mirrorKey key) = Some v \<and>
            cookieRead key (snd (getCookie key s)) = Some (Hit v)) \<and>
         (cookieRead key s = Some Miss \<and> ls s (mirrorKey key) = Some v \<and> v \<noteq> [] \<longrightarrow>
            fst (getCookie key s) = Some v \<and>
            ls (snd (getCookie key s)) (mirrorKey key) = Some v \<and>
            (wellFormed v \<longrightarrow> cookieRead key (snd (getCookie key s)) = Some (Hit v)) \<and>
            (\<not> wellFormed v \<longrightarrow> jar (snd (getCookie key s)) = jar s)) \<and>
         (cookieRead key s = Some Miss \<and> ls s (mirrorKey key) = Some [] \<longrightarrow>
            getCookie key s = (ls s key, s))"
proof (intro conjI impI)
  note ne = plainKey_no_eq[OF assms(4)]
  note cr = cookieRead_on[OF assms(2,3,4)]
  {
    assume "cookieRead key s = Some (Hit v)"
    then have h: "probe key (jar s) = Hit v" using cr by simp
    have g: "getCookie key s = (Some v, setItem (mirrorKey key) v s)"
      using getCookie_on[OF assms(1,2,3) ne] h by simp
    show "fst (getCookie key s) = Some v" by (simp add: g)
    show "ls (snd (getCookie key s)) (mirrorKey key) = Some v" by (simp add: g setItem_def)
    have "cookieRead key (setItem (mirrorKey key) v s) = Some (probe key (jar s))"
      using cookieRead_on[of "setItem (mirrorKey key) v s" key] assms
      by (simp add: setItem_def)
    then show "cookieRead key (snd (getCookie key s)) = Some (Hit v)" by (simp add: g h)
  }
  {
    assume a: "cookieRead key s = Some Miss \<and> ls s (mirrorKey key) = Some v \<and> v \<noteq> []"
    then have h: "probe key (jar s) = Miss" using cr by simp
    let ?s = "setCookie key v 30 s"
    have g: "getCookie key s = (Some v, ?s)"
      using getCookie_on[OF assms(1,2,3) ne] h a by (simp add: truthy_def)
    show "fst (getCookie key s) = Some v" by (simp add: g)
    show "ls (snd (getCookie key s)) (mirrorKey key) = Some v"
      by (simp add: g ls_setCookie[OF assms(1)])
    {
      assume w: "wellFormed v"
      have sc: "?s = s\<lparr>jar := jar_put key (escape_all v) (jar s), ls := (ls s)(mirrorKey key \<mapsto> v)\<rparr>"
        using setCookie_on[OF assms(1,2,4) w, of 30] by simp
      have "wf_jar (jar ?s)"
        using wf_jar_put[OF assms(3) cookie_ok_escaped[OF assms(4), of v]] by (simp add: sc)
      then have "cookieRead key ?s = Some (probe key (jar ?s))"
        using cookieRead_on[of ?s key] assms(2,4) by (simp add: sc)
      then show "cookieRead key (snd (getCookie key s)) = Some (Hit v)"
        using w by (simp add: g sc probe_put)
    }
    {
      assume "\<not> wellFormed v"
      then have "mode s \<noteq> CookiesOn \<or> \<not> wellFormed v" by simp
      from setCookie_no_jar[OF assms(1) this, of key 30]
      show "jar (snd (getCookie key s)) = jar s" by (simp add: g setItem_def)
    }
  }
  {
    assume a: "cookieRead key s = Some Miss \<and> ls s (mirrorKey key) = Some []"
    then have h: "probe key (jar s) = Miss" using cr by simp
    show "getCookie key s = (ls s key, s)"
      using getCookie_on[OF assms(1,2,3) ne] h a by (simp add: truthy_def)
  }
qed

theorem getCookie_repairs_witness:
  "isBrowser cookieOnly \<and> mode cookieOnly = CookiesOn \<and> wf_jar (jar cookieOnly) \<and>
   isBrowser mirrorOnly \<and> mode mirrorOnly = CookiesOn \<and> wf_jar (jar mirrorOnly) \<and>
   isBrowser illFormedMirror \<and> mode illFormedMirror = CookiesOn \<and> wf_jar (jar illFormedMirror) \<and>
   isBrowser emptyMirror \<and> mode emptyMirror = CookiesOn \<and> wf_jar (jar emptyMirror) \<and>
   plainKey ''network_unit'' \<and> wellFormed ''Mbps'' \<and> \<not> wellFormed [CHR 0xFF] \<and>
   cookieRead ''network_unit'' cookieOnly = Some (Hit ''Mbps'') \<and>
   ls cookieOnly (mirrorKey ''network_unit'') = None \<and>
   fst (getCookie ''network_unit'' cookieOnly) = Some ''Mbps'' \<and>
   ls (snd (getCookie ''network_unit'' cookieOnly)) (mirrorKey ''network_unit'') = Some ''Mbps'' \<and>
   cookieRead ''network_unit'' (snd (getCookie ''network_unit'' cookieOnly)) = Some (Hit ''Mbps'') \<and>
   cookieRead ''network_unit'' mirrorOnly = Some Miss \<and>
   ls mirrorOnly (mirrorKey ''network_unit'') = Some ''Mbps'' \<and>
   fst (getCookie ''network_unit'' mirrorOnly) = Some ''Mbps'' \<and>
   ls (snd (getCookie ''network_unit'' mirrorOnly)) (mirrorKey ''network_unit'') = Some ''Mbps'' \<and>
   cookieRead ''network_unit'' (snd (getCookie ''network_unit'' mirrorOnly)) = Some (Hit ''Mbps'') \<and>
   cookieRead ''network_unit'' illFormedMirror = Some Miss \<and>
   ls illFormedMirror (mirrorKey ''network_unit'') = Some [CHR 0xFF] \<and>
   fst (getCookie ''network_unit'' illFormedMirror) = Some [CHR 0xFF] \<and>
   jar (snd (getCookie ''network_unit'' illFormedMirror)) = jar illFormedMirror \<and>
   cookieRead ''network_unit'' emptyMirror = Some Miss \<and>
   ls emptyMirror (mirrorKey ''network_unit'') = Some [] \<and>
   getCookie ''network_unit'' emptyMirror = (None, emptyMirror)"
proof -
  have c: "isBrowser cookieOnly" "mode cookieOnly = CookiesOn" "wf_jar (jar cookieOnly)"
    by (simp_all add: cookieOnly_def base_def wf_jar_def cookie_ok_def)
  have m: "isBrowser mirrorOnly" "mode mirrorOnly = CookiesOn" "wf_jar (jar mirrorOnly)"
    by (simp_all add: mirrorOnly_def base_def wf_jar_def)
  have i: "isBrowser illFormedMirror" "mode illFormedMirror = CookiesOn" "wf_jar (jar illFormedMirror)"
    by (simp_all add: illFormedMirror_def base_def wf_jar_def)
  have e: "isBrowser emptyMirror" "mode emptyMirror = CookiesOn" "wf_jar (jar emptyMirror)"
    by (simp_all add: emptyMirror_def base_def wf_jar_def)
  have rc: "cookieRead ''network_unit'' cookieOnly = Some (Hit ''Mbps'')"
    using cookieRead_on[OF c(2,3) plainKey_prefs(2)]
    by (simp add: cookieOnly_def probe_def decode_Mbps)
  have rm: "cookieRead ''network_unit'' mirrorOnly = Some Miss"
    using cookieRead_on[OF m(2,3) plainKey_prefs(2)]
    by (simp add: mirrorOnly_def base_def probe_def)
  have ri: "cookieRead ''network_unit'' illFormedMirror = Some Miss"
    using cookieRead_on[OF i(2,3) plainKey_prefs(2)]
    by (simp add: illFormedMirror_def base_def probe_def)
  have re: "cookieRead ''network_unit'' emptyMirror = Some Miss"
    using cookieRead_on[OF e(2,3) plainKey_prefs(2)]
    by (simp add: emptyMirror_def base_def probe_def)
  have l: "ls cookieOnly (mirrorKey ''network_unit'') = None"
    "ls mirrorOnly (mirrorKey ''network_unit'') = Some ''Mbps''"
    "ls illFormedMirror (mirrorKey ''network_unit'') = Some [CHR 0xFF]"
    "ls emptyMirror (mirrorKey ''network_unit'') = Some []"
    "ls emptyMirror ''network_unit'' = None"
    by (simp_all add: cookieOnly_def mirrorOnly_def illFormedMirror_def emptyMirror_def base_def
        mirrorKey_def)
  have ill: "\<not> wellFormed [CHR 0xFF]" by (simp add: wellFormed_def)
  show ?thesis
    using c m i e rc rm ri re l ill plainKey_prefs(2) wellFormed_samples(3)
      getCookie_repairs[OF c plainKey_prefs(2), of "''Mbps''"]
      getCookie_repairs[OF m plainKey_prefs(2), of "''Mbps''"]
      getCookie_repairs[OF i plainKey_prefs(2), of "[CHR 0xFF]"]
      getCookie_repairs[OF e plainKey_prefs(2), of "[]"]
    by simp
qed

theorem getCookie_empty_mirror_counterexample:
  "isBrowser emptyMirror \<and> mode emptyMirror = CookiesOn \<and>
   cookieRead ''network_unit'' emptyMirror = Some Miss \<and>
   ls emptyMirror (mirrorKey ''network_unit'') = Some [] \<and>
   fst (getCookie ''network_unit'' emptyMirror) = None \<and>
   cookieRead ''network_unit'' (snd (getCookie ''network_unit'' emptyMirror)) = Some Miss \<and>
   isBrowser illFormedMirror \<and> mode illFormedMirror = CookiesOn \<and>
   cookieRead ''network_unit'' illFormedMirror = Some Miss \<and>
   ls illFormedMirror (mirrorKey ''network_unit'') = Some [CHR 0xFF] \<and>
   fst (getCookie ''network_unit'' illFormedMirror) = Some [CHR 0xFF] \<and>
   cookieRead ''network_unit'' (snd (getCookie ''network_unit'' illFormedMirror)) = Some Miss"
proof -
  have m: "isBrowser emptyMirror" "mode emptyMirror = CookiesOn" "wf_jar (jar emptyMirror)"
    by (simp_all add: emptyMirror_def base_def wf_jar_def)
  have rm: "cookieRead ''network_unit'' emptyMirror = Some Miss"
    using cookieRead_on[OF m(2,3) plainKey_prefs(2)]
    by (simp add: emptyMirror_def base_def probe_def)
  have l: "ls emptyMirror (mirrorKey ''network_unit'') = Some []"
    "ls emptyMirror ''network_unit'' = None"
    by (simp_all add: emptyMirror_def base_def mirrorKey_def)
  have "probe ''network_unit'' (jar emptyMirror) = Miss"
    by (simp add: emptyMirror_def base_def probe_def)
  then have g: "getCookie ''network_unit'' emptyMirror = (None, emptyMirror)"
    using getCookie_on[OF m plainKey_no_eq[OF plainKey_prefs(2)]] l
    by (simp add: truthy_def)
  have i: "isBrowser illFormedMirror" "mode illFormedMirror = CookiesOn" "wf_jar (jar illFormedMirror)"
    by (simp_all add: illFormedMirror_def base_def wf_jar_def)
  have ri: "cookieRead ''network_unit'' illFormedMirror = Some Miss"
    using cookieRead_on[OF i(2,3) plainKey_prefs(2)]
    by (simp add: illFormedMirror_def base_def probe_def)
  have li: "ls illFormedMirror (mirrorKey ''network_unit'') = Some [CHR 0xFF]"
    by (simp add: illFormedMirror_def base_def mirrorKey_def)
  have ill: "\<not> wellFormed [CHR 0xFF]" by (simp add: wellFormed_def)
  have "probe ''network_unit'' (jar illFormedMirror) = Miss"
    by (simp add: illFormedMirror_def base_def probe_def)
  then have gi: "getCookie ''network_unit'' illFormedMirror =
      (Some [CHR 0xFF], setCookie ''network_unit'' [CHR 0xFF] 30 illFormedMirror)"
    using getCookie_on[OF i plainKey_no_eq[OF plainKey_prefs(2)]] li
    by (simp add: truthy_def)
  have si: "setCookie ''network_unit'' [CHR 0xFF] 30 illFormedMirror = illFormedMirror"
    using setCookie_no_jar[OF i(1), of "[CHR 0xFF]" "''network_unit''" 30] ill li
    by (simp add: setItem_same)
  show ?thesis using m rm l i ri li by (simp add: g gi si)
qed

end
